theory Spec2Isabelle
  imports Main
begin

section \<open>Partial sign vectors (sign\_vectors/partial\_sign\_vectors.py)\<close>

text \<open>
  The module keeps a partial sign vector as three bitsets of one capacity: the positions
  that admit the sign \<open>-1\<close>, the sign \<open>0\<close> and the sign \<open>1\<close>. This theory embeds the
  class \<open>PartialSignVector\<close> function by function. A leading underscore of a Python
  name is written \<open>u_\<close>; a name that clashes with a constant of HOL gets a suffix.
  Exceptions are values: a function that can raise returns \<open>error + 'a\<close>, with
  \<open>Inl\<close> for the exception raised and \<open>Inr\<close> for the value returned.
\<close>

datatype error = IndexError | ValueError | TypeError

subsection \<open>The bitset primitive\<close>

text \<open>
  \<open>FrozenBitset\<close> is imported from the Sage library and is not part of the module.
  It is modelled as the specification describes it: a set of indices with a fixed
  capacity, with union, intersection, difference, symmetric difference, complement
  within the capacity, subset test, membership, iteration in ascending order and
  equality of the members. A binary operation on two capacities gives the larger one.
  The library has no bitset of capacity zero: its constructor raises \<open>ValueError\<close> for
  the capacity 0 and for an empty collection given without a capacity.
\<close>

record bitset =
  capacity :: nat
  bits :: "nat set"

text \<open>\<open>FrozenBitset(iter, capacity=c)\<close>: the capacity 0 is refused, and so is an index
  that does not fit.\<close>

definition FrozenBitset :: "nat list \<Rightarrow> nat \<Rightarrow> error + bitset" where
  "FrozenBitset iter c =
     (if c = 0 then Inl ValueError
      else if set iter \<subseteq> {..<c} then Inr \<lparr>capacity = c, bits = set iter\<rparr>
      else Inl ValueError)"

text \<open>\<open>FrozenBitset(iter)\<close>: the capacity is one more than the largest index; no index at
  all is refused, since the capacity would be 0.\<close>

definition FrozenBitset_of :: "nat list \<Rightarrow> error + bitset" where
  "FrozenBitset_of iter =
     (if iter = [] then Inl ValueError
      else Inr \<lparr>capacity = Max (set iter) + 1, bits = set iter\<rparr>)"

definition union_bs :: "bitset \<Rightarrow> bitset \<Rightarrow> bitset" where
  "union_bs a b = \<lparr>capacity = max (capacity a) (capacity b), bits = bits a \<union> bits b\<rparr>"

definition intersection_bs :: "bitset \<Rightarrow> bitset \<Rightarrow> bitset" where
  "intersection_bs a b = \<lparr>capacity = max (capacity a) (capacity b), bits = bits a \<inter> bits b\<rparr>"

definition difference_bs :: "bitset \<Rightarrow> bitset \<Rightarrow> bitset" where
  "difference_bs a b = \<lparr>capacity = max (capacity a) (capacity b), bits = bits a - bits b\<rparr>"

definition symmetric_difference_bs :: "bitset \<Rightarrow> bitset \<Rightarrow> bitset" where
  "symmetric_difference_bs a b =
     \<lparr>capacity = max (capacity a) (capacity b), bits = (bits a - bits b) \<union> (bits b - bits a)\<rparr>"

definition complement_bs :: "bitset \<Rightarrow> bitset" where
  "complement_bs a = \<lparr>capacity = capacity a, bits = {..<capacity a} - bits a\<rparr>"

definition isempty :: "bitset \<Rightarrow> bool" where
  "isempty a = (bits a = {})"

definition issubset_bs :: "bitset \<Rightarrow> bitset \<Rightarrow> bool" where
  "issubset_bs a b = (bits a \<subseteq> bits b)"

definition eq_bs :: "bitset \<Rightarrow> bitset \<Rightarrow> bool" where
  "eq_bs a b = (bits a = bits b)"

definition contains :: "nat \<Rightarrow> bitset \<Rightarrow> bool" where
  "contains n a = (n < capacity a \<and> n \<in> bits a)"

text \<open>\<open>list(b)\<close>: the members in ascending order.\<close>

definition list_bs :: "bitset \<Rightarrow> nat list" where
  "list_bs a = sorted_list_of_set (bits a)"

subsection \<open>The collaborator SignVector\<close>

text \<open>
  Modelled from the spec: the class \<open>SignVector\<close> of \<open>sign_vectors/sign_vectors.py\<close>,
  which the module imports and which is not among the given sources. The specification
  describes it as a total sign vector with two disjoint bitsets, the positive and the
  negative support, and the zero support implied as the complement of their union; two
  sign vectors are equal when their supports are. The constructor takes the positive
  support first.
\<close>

record SignVector =
  sv_positive_support :: bitset
  sv_negative_support :: bitset

definition sv_zero_support :: "SignVector \<Rightarrow> bitset" where
  "sv_zero_support sv = complement_bs (union_bs (sv_positive_support sv) (sv_negative_support sv))"

subsection \<open>The class PartialSignVector\<close>

record PartialSignVector =
  u_negative_support :: bitset
  u_zero_support :: bitset
  u_positive_support :: bitset

text \<open>The argument \<open>other\<close> of the binary methods, which dispatch on its type.\<close>

datatype vec = SV SignVector | PSV PartialSignVector

fun other_negative_support :: "vec \<Rightarrow> bitset" where
  "other_negative_support (SV sv) = sv_negative_support sv"
| "other_negative_support (PSV x) = u_negative_support x"

fun other_zero_support :: "vec \<Rightarrow> bitset" where
  "other_zero_support (SV sv) = sv_zero_support sv"
| "other_zero_support (PSV x) = u_zero_support x"

fun other_positive_support :: "vec \<Rightarrow> bitset" where
  "other_positive_support (SV sv) = sv_positive_support sv"
| "other_positive_support (PSV x) = u_positive_support x"

definition length_psv :: "PartialSignVector \<Rightarrow> nat" where
  "length_psv self = capacity (u_negative_support self)"

text \<open>\<open>__getitem__\<close> at an integer (the slice branch is not modelled).\<close>

definition getitem :: "PartialSignVector \<Rightarrow> int \<Rightarrow> error + int list" where
  "getitem self e =
     (if e \<ge> int (length_psv self) \<or> e < - int (length_psv self) then Inl IndexError
      else
        let e' = nat (if e < 0 then e mod int (length_psv self) else e) in
        Inr ((if contains e' (u_negative_support self) then [-1] else []) @
             (if contains e' (u_zero_support self) then [0] else []) @
             (if contains e' (u_positive_support self) then [1] else [])))"

text \<open>\<open>to_string(index)\<close> with an index: \<open>Inr None\<close> is Python's \<open>None\<close>, returned when
  no comparison matches.\<close>

definition to_string_index :: "PartialSignVector \<Rightarrow> int \<Rightarrow> error + string option" where
  "to_string_index self index =
     (case getitem self index of
        Inl err \<Rightarrow> Inl err
      | Inr r \<Rightarrow>
          if r = [-1] then Inr (Some ''-'')
          else if r = [0] then Inr (Some ''0'')
          else if r = [1] then Inr (Some ''+'')
          else if r = [-1, 0] then Inr (Some ''n'')
          else if r = [-1, 1] then Inr (Some ''/'')
          else if r = [0, 1] then Inr (Some ''p'')
          else if r = [-1, 0, 1] then Inr (Some ''*'')
          else Inr None)"

text \<open>\<open>"".join(...)\<close> over a generator: an exception of the generator comes first, then
  the \<open>TypeError\<close> of \<open>join\<close> on an item that is not a string.\<close>

fun join :: "(error + string option) list \<Rightarrow> error + string" where
  "join [] = Inr []"
| "join (Inl err # rest) = Inl err"
| "join (Inr None # rest) = (case join rest of Inl err \<Rightarrow> Inl err | Inr r \<Rightarrow> Inl TypeError)"
| "join (Inr (Some s) # rest) = (case join rest of Inl err \<Rightarrow> Inl err | Inr r \<Rightarrow> Inr (s @ r))"

definition to_string :: "PartialSignVector \<Rightarrow> error + string" where
  "to_string self = join (map (\<lambda>e. to_string_index self (int e)) [0..<length_psv self])"

definition negative_support :: "PartialSignVector \<Rightarrow> nat list" where
  "negative_support self = list_bs (u_negative_support self)"

definition zero_support :: "PartialSignVector \<Rightarrow> nat list" where
  "zero_support self = list_bs (u_zero_support self)"

definition positive_support :: "PartialSignVector \<Rightarrow> nat list" where
  "positive_support self = list_bs (u_positive_support self)"

definition u_determined_negative_support :: "PartialSignVector \<Rightarrow> bitset" where
  "u_determined_negative_support self =
     difference_bs (u_negative_support self) (union_bs (u_positive_support self) (u_zero_support self))"

definition u_determined_zero_support :: "PartialSignVector \<Rightarrow> bitset" where
  "u_determined_zero_support self =
     difference_bs (u_zero_support self) (union_bs (u_negative_support self) (u_positive_support self))"

definition u_determined_positive_support :: "PartialSignVector \<Rightarrow> bitset" where
  "u_determined_positive_support self =
     difference_bs (u_positive_support self) (union_bs (u_negative_support self) (u_zero_support self))"

definition u_determined_support :: "PartialSignVector \<Rightarrow> bitset" where
  "u_determined_support self =
     union_bs (union_bs (u_determined_negative_support self) (u_determined_zero_support self))
       (u_determined_positive_support self)"

definition u_undetermined_support :: "PartialSignVector \<Rightarrow> bitset" where
  "u_undetermined_support self =
     intersection_bs (intersection_bs (u_positive_support self) (u_negative_support self))
       (u_zero_support self)"

definition determined_support :: "PartialSignVector \<Rightarrow> nat list" where
  "determined_support self = list_bs (u_determined_support self)"

definition undetermined_support :: "PartialSignVector \<Rightarrow> nat list" where
  "undetermined_support self = list_bs (u_undetermined_support self)"

text \<open>\<open>cardinality\<close>: the lengths are Python integers. A negative exponent would make
  Python return a float, which the model does not have: \<open>None\<close> there.\<close>

definition cardinality :: "PartialSignVector \<Rightarrow> int option" where
  "cardinality self =
     (let k = int (length_psv self) - int (length (determined_support self))
                - int (length (undetermined_support self))
      in if k < 0 then None
         else Some (2 ^ nat k * 3 ^ length (undetermined_support self)))"

definition flip_signs :: "PartialSignVector \<Rightarrow> nat list \<Rightarrow> error + PartialSignVector" where
  "flip_signs self indices =
     (case FrozenBitset_of indices of
        Inl err \<Rightarrow> Inl err
      | Inr b \<Rightarrow>
          let ind = intersection_bs b
                      (union_bs (u_positive_support self) (u_negative_support self))
          in Inr \<lparr>u_negative_support = symmetric_difference_bs (u_negative_support self) ind,
                  u_zero_support = u_zero_support self,
                  u_positive_support = symmetric_difference_bs (u_positive_support self) ind\<rparr>)"

text \<open>\<open>__neg__\<close>: the two outer supports change places.\<close>

definition neg :: "PartialSignVector \<Rightarrow> PartialSignVector" where
  "neg self = \<lparr>u_negative_support = u_positive_support self,
               u_zero_support = u_zero_support self,
               u_positive_support = u_negative_support self\<rparr>"

text \<open>The argument \<open>sign\<close> of \<open>set_sign\<close>: a string or a list of integers.\<close>

datatype sign_arg = SignStr string | SignList "int list"

fun set_sign :: "PartialSignVector \<Rightarrow> nat list \<Rightarrow> sign_arg \<Rightarrow> error + PartialSignVector" where
  "set_sign self indices (SignStr sign) =
     (case FrozenBitset_of indices of
        Inl err \<Rightarrow> Inl err
      | Inr ind \<Rightarrow>
          Inr \<lparr>u_negative_support =
                 (if sign \<in> set [''-'', ''n'', ''/'', ''*''] then union_bs (u_negative_support self) ind
                  else difference_bs (u_negative_support self) ind),
               u_zero_support =
                 (if sign \<in> set [''0'', ''n'', ''p'', ''*''] then union_bs (u_zero_support self) ind
                  else difference_bs (u_zero_support self) ind),
               u_positive_support =
                 (if sign \<in> set [''+'', ''p'', ''/'', ''*''] then union_bs (u_positive_support self) ind
                  else difference_bs (u_positive_support self) ind)\<rparr>)"
| "set_sign self indices (SignList sign) =
     (case FrozenBitset_of indices of
        Inl err \<Rightarrow> Inl err
      | Inr ind \<Rightarrow>
          Inr \<lparr>u_negative_support =
                 (if -1 \<in> set sign then union_bs (u_negative_support self) ind
                  else difference_bs (u_negative_support self) ind),
               u_zero_support =
                 (if 0 \<in> set sign then union_bs (u_zero_support self) ind
                  else difference_bs (u_zero_support self) ind),
               u_positive_support =
                 (if 1 \<in> set sign then union_bs (u_positive_support self) ind
                  else difference_bs (u_positive_support self) ind)\<rparr>)"

fun u_connecting_elements :: "PartialSignVector \<Rightarrow> vec \<Rightarrow> bitset" where
  "u_connecting_elements self (SV other) =
     union_bs (intersection_bs (u_determined_positive_support self) (sv_positive_support other))
              (intersection_bs (u_determined_negative_support self) (sv_negative_support other))"
| "u_connecting_elements self (PSV other) =
     union_bs (intersection_bs (u_determined_positive_support self) (u_determined_positive_support other))
              (intersection_bs (u_determined_negative_support self) (u_determined_negative_support other))"

fun u_separating_elements :: "PartialSignVector \<Rightarrow> vec \<Rightarrow> bitset" where
  "u_separating_elements self (SV other) =
     union_bs (intersection_bs (u_determined_positive_support self) (sv_negative_support other))
              (intersection_bs (u_determined_negative_support self) (sv_positive_support other))"
| "u_separating_elements self (PSV other) =
     union_bs (intersection_bs (u_determined_positive_support self) (u_determined_negative_support other))
              (intersection_bs (u_determined_negative_support self) (u_determined_positive_support other))"

definition connecting_elements :: "PartialSignVector \<Rightarrow> vec \<Rightarrow> nat list" where
  "connecting_elements self other = list_bs (u_connecting_elements self other)"

definition separating_elements :: "PartialSignVector \<Rightarrow> vec \<Rightarrow> nat list" where
  "separating_elements self other = list_bs (u_separating_elements self other)"

definition compose :: "PartialSignVector \<Rightarrow> vec \<Rightarrow> PartialSignVector" where
  "compose self other =
     \<lparr>u_negative_support =
        union_bs (u_negative_support self)
          (intersection_bs (other_negative_support other) (u_zero_support self)),
      u_zero_support = intersection_bs (u_zero_support self) (other_zero_support other),
      u_positive_support =
        union_bs (u_positive_support self)
          (intersection_bs (other_positive_support other) (u_zero_support self))\<rparr>"

fun is_orthogonal_to :: "PartialSignVector \<Rightarrow> vec \<Rightarrow> bool" where
  "is_orthogonal_to self (SV other) =
     (if isempty (complement_bs (union_bs (u_determined_zero_support self) (sv_zero_support other)))
      then True
      else \<not> (isempty (u_separating_elements self (SV other))
               \<or> isempty (u_connecting_elements self (SV other))))"
| "is_orthogonal_to self (PSV other) =
     (if isempty (complement_bs (union_bs (u_determined_zero_support self)
                                   (u_determined_zero_support other)))
      then True
      else \<not> (isempty (u_separating_elements self (PSV other))
               \<or> isempty (u_connecting_elements self (PSV other))))"

definition issubset :: "PartialSignVector \<Rightarrow> PartialSignVector \<Rightarrow> bool" where
  "issubset self other =
     (issubset_bs (u_positive_support self) (u_positive_support other)
      \<and> issubset_bs (u_negative_support self) (u_negative_support other)
      \<and> issubset_bs (u_zero_support self) (u_zero_support other))"

text \<open>\<open>__eq__\<close>: \<open>other\<close> is a (partial) sign vector or an integer.\<close>

datatype eq_arg = EqVec vec | EqInt int

fun eq_psv :: "PartialSignVector \<Rightarrow> eq_arg \<Rightarrow> bool" where
  "eq_psv self (EqVec other) =
     (eq_bs (u_negative_support self) (other_negative_support other)
      \<and> eq_bs (u_positive_support self) (other_positive_support other)
      \<and> eq_bs (u_zero_support self) (other_zero_support other))"
| "eq_psv self (EqInt other) =
     (if other = 0
      then isempty (union_bs (u_positive_support self) (u_negative_support self))
      else False)"

definition is_sign_vector :: "PartialSignVector \<Rightarrow> bool" where
  "is_sign_vector self = (length_psv self = length (determined_support self))"

text \<open>What \<open>to_sign_vector\<close> hands back: a sign vector, or an exception object.\<close>

datatype py_value = SignVectorValue SignVector | ExceptionValue string

text \<open>\<open>to_sign_vector\<close>: the second branch is \<open>return Exception("not a sign vector")\<close>,
  a normal return of the object; nothing is raised.\<close>

definition to_sign_vector :: "PartialSignVector \<Rightarrow> error + py_value" where
  "to_sign_vector self =
     (if is_sign_vector self
      then Inr (SignVectorValue
                 \<lparr>sv_positive_support = u_positive_support self,
                  sv_negative_support = u_negative_support self\<rparr>)
      else Inr (ExceptionValue ''not a sign vector''))"

text \<open>
  \<open>unpack\<close>. One round of the outer loop replaces the set \<open>res\<close> by the set of all
  \<open>psv.set_sign([e], [s])\<close> for \<open>psv\<close> in \<open>res\<close> and \<open>s\<close> in \<open>psv[e]\<close>; \<open>psv[e]\<close>
  raises for an index out of range, and an exception of \<open>set_sign\<close> ends the loop too.
  Python's sets are HOL sets: the vectors in \<open>res\<close> have one capacity, where \<open>__eq__\<close> is
  equality of the records.
\<close>

definition unpack_step :: "nat \<Rightarrow> PartialSignVector set \<Rightarrow> error + PartialSignVector set" where
  "unpack_step e res =
     (if \<exists>psv\<in>res. isl (getitem psv (int e)) then Inl IndexError
      else if \<exists>psv\<in>res. \<exists>s\<in>set (projr (getitem psv (int e))).
                 isl (set_sign psv [e] (SignList [s])) then Inl ValueError
      else Inr (\<Union>psv\<in>res. (\<lambda>s. projr (set_sign psv [e] (SignList [s])))
                                ` set (projr (getitem psv (int e)))))"

fun unpack_loop :: "nat list \<Rightarrow> PartialSignVector set \<Rightarrow> error + PartialSignVector set" where
  "unpack_loop [] res = Inr res"
| "unpack_loop (e # es) res =
     (case unpack_step e res of Inl err \<Rightarrow> Inl err | Inr temp \<Rightarrow> unpack_loop es temp)"

text \<open>
  The elements of the set that \<open>unpack()\<close> builds from \<open>sv.to_sign_vector()\<close> for the
  vectors \<open>sv\<close> of \<open>res\<close>. Sign vectors are compared by their supports. An exception
  object is compared by identity, and every call makes a new one: it is told apart by
  the vector whose call made it.
\<close>

datatype cast_element = SignVectorElement SignVector | ExceptionElement PartialSignVector string

fun cast_element_of :: "PartialSignVector \<Rightarrow> py_value \<Rightarrow> cast_element" where
  "cast_element_of sv (SignVectorValue v) = SignVectorElement v"
| "cast_element_of sv (ExceptionValue msg) = ExceptionElement sv msg"

datatype unpack_result = Cast "cast_element set" | Uncast "PartialSignVector set"

text \<open>The argument \<open>indices\<close>: \<open>None\<close>, one integer, or a list. \<open>to_sign_vector\<close> raises
  nothing, so the branch for its exception is never taken.\<close>

datatype indices_arg = NoIndices | OneIndex nat | Indices "nat list"

fun unpack :: "PartialSignVector \<Rightarrow> indices_arg \<Rightarrow> error + unpack_result" where
  "unpack self NoIndices =
     (case unpack_loop [0..<length_psv self] {self} of
        Inl err \<Rightarrow> Inl err
      | Inr res \<Rightarrow>
          if \<exists>sv\<in>res. isl (to_sign_vector sv) then Inl TypeError
          else Inr (Cast ((\<lambda>sv. cast_element_of sv (projr (to_sign_vector sv))) ` res)))"
| "unpack self (OneIndex i) =
     (case unpack_loop [i] {self} of Inl err \<Rightarrow> Inl err | Inr res \<Rightarrow> Inr (Uncast res))"
| "unpack self (Indices indices) =
     (case unpack_loop indices {self} of Inl err \<Rightarrow> Inl err | Inr res \<Rightarrow> Inr (Uncast res))"

definition from_support :: "nat list \<Rightarrow> nat list \<Rightarrow> nat list \<Rightarrow> nat \<Rightarrow> error + PartialSignVector" where
  "from_support negative zero positive len =
     (case FrozenBitset negative len of
        Inl err \<Rightarrow> Inl err
      | Inr n \<Rightarrow>
          (case FrozenBitset zero len of
             Inl err \<Rightarrow> Inl err
           | Inr z \<Rightarrow>
               (case FrozenBitset positive len of
                  Inl err \<Rightarrow> Inl err
                | Inr p \<Rightarrow>
                    Inr \<lparr>u_negative_support = n, u_zero_support = z, u_positive_support = p\<rparr>)))"

definition from_string :: "string \<Rightarrow> error + PartialSignVector" where
  "from_string s =
     from_support
       (map fst (filter (\<lambda>(pos, t). t \<in> set ''-n/*'') (enumerate 0 s)))
       (map fst (filter (\<lambda>(pos, t). t \<in> set ''0np*'') (enumerate 0 s)))
       (map fst (filter (\<lambda>(pos, t). t \<in> set ''+p/*'') (enumerate 0 s)))
       (length s)"

subsection \<open>Invariants of the representation\<close>

text \<open>The three bitsets have the capacity of the vector and hold indices below it.\<close>

definition bitset_ok :: "nat \<Rightarrow> bitset \<Rightarrow> bool" where
  "bitset_ok n b = (capacity b = n \<and> bits b \<subseteq> {..<n})"

definition psv_ok :: "PartialSignVector \<Rightarrow> bool" where
  "psv_ok x = (bitset_ok (length_psv x) (u_negative_support x)
             \<and> bitset_ok (length_psv x) (u_zero_support x)
             \<and> bitset_ok (length_psv x) (u_positive_support x))"

text \<open>Invariant I1: every position admits at least one sign.\<close>

definition well_formed :: "PartialSignVector \<Rightarrow> bool" where
  "well_formed x =
     ({..<length_psv x} \<subseteq> bits (u_negative_support x) \<union> bits (u_zero_support x) \<union> bits (u_positive_support x))"

text \<open>The collaborator's two bitsets have the capacity \<open>n\<close> and hold indices below it.\<close>

definition sv_ok :: "nat \<Rightarrow> SignVector \<Rightarrow> bool" where
  "sv_ok n sv = (bitset_ok n (sv_positive_support sv) \<and> bitset_ok n (sv_negative_support sv))"

subsection \<open>The specification's reading of connecting elements\<close>

text \<open>
  The specification's words for \<open>connectingElements\<close>, not the code: the positions where
  \<open>self\<close> is determined positive and \<open>other\<close> admits the negative sign, or \<open>self\<close> is
  determined negative and \<open>other\<close> admits the positive sign, with the determined supports
  of a partial \<open>other\<close>.
\<close>

definition connecting_elements_claimed :: "PartialSignVector \<Rightarrow> PartialSignVector \<Rightarrow> nat list" where
  "connecting_elements_claimed self other =
     filter (\<lambda>e. (contains e (u_determined_positive_support self)
                    \<and> contains e (u_determined_negative_support other))
                \<or> (contains e (u_determined_negative_support self)
                    \<and> contains e (u_determined_positive_support other)))
       [0..<length_psv self]"

subsection \<open>The symbol of a position\<close>

text \<open>The character that stands for the signs a position admits; \<open>+\<close> is the last case,
  which under invariant I1 is the position that admits the sign 1 only.\<close>

definition symbol_at :: "PartialSignVector \<Rightarrow> nat \<Rightarrow> char" where
  "symbol_at x e =
     (if e \<in> bits (u_negative_support x)
      then (if e \<in> bits (u_zero_support x)
            then (if e \<in> bits (u_positive_support x) then CHR ''*'' else CHR ''n'')
            else (if e \<in> bits (u_positive_support x) then CHR ''/'' else CHR ''-''))
      else (if e \<in> bits (u_zero_support x)
            then (if e \<in> bits (u_positive_support x) then CHR ''p'' else CHR ''0'')
            else CHR ''+''))"

subsection \<open>Positions, and the loop of unpack\<close>

text \<open>The signs a position admits, as membership in the negative, the zero and the positive
  support, and the list \<open>__getitem__\<close> makes of them.\<close>

definition admits :: "PartialSignVector \<Rightarrow> nat \<Rightarrow> bool \<times> bool \<times> bool" where
  "admits y i = (i \<in> bits (u_negative_support y), i \<in> bits (u_zero_support y),
                 i \<in> bits (u_positive_support y))"

definition signs_of :: "bool \<times> bool \<times> bool \<Rightarrow> int list" where
  "signs_of t = (case t of (a, b, c) \<Rightarrow>
     (if a then [-1] else []) @ (if b then [0] else []) @ (if c then [1] else []))"

text \<open>
  The invariant of the loop of \<open>unpack\<close> before the round for index \<open>k\<close>: \<open>res\<close> is finite,
  and each of its vectors has the capacity of \<open>x\<close>, agrees with \<open>x\<close> from position \<open>k\<close> on and
  admits exactly one sign at every position below \<open>k\<close>.
\<close>

definition unpack_inv :: "PartialSignVector \<Rightarrow> nat \<Rightarrow> PartialSignVector set \<Rightarrow> bool" where
  "unpack_inv x k res =
     (finite res \<and>
      (\<forall>y\<in>res. psv_ok y \<and> length_psv y = length_psv x
         \<and> (\<forall>i\<ge>k. admits y i = admits x i)
         \<and> (\<forall>i<k. length (signs_of (admits y i)) = 1)))"

text \<open>A vector written out: its capacity and the members of its three supports.\<close>

abbreviation vector_of :: "nat \<Rightarrow> nat set \<Rightarrow> nat set \<Rightarrow> nat set \<Rightarrow> PartialSignVector" where
  "vector_of n negative zero positive \<equiv>
     \<lparr>u_negative_support = \<lparr>capacity = n, bits = negative\<rparr>,
      u_zero_support = \<lparr>capacity = n, bits = zero\<rparr>,
      u_positive_support = \<lparr>capacity = n, bits = positive\<rparr>\<rparr>"

section \<open>Properties\<close>

lemmas bs_defs = union_bs_def intersection_bs_def difference_bs_def symmetric_difference_bs_def
  complement_bs_def isempty_def issubset_bs_def eq_bs_def contains_def

lemmas det_defs = u_determined_negative_support_def u_determined_zero_support_def
  u_determined_positive_support_def u_determined_support_def u_undetermined_support_def

lemmas ok_defs = psv_ok_def bitset_ok_def length_psv_def well_formed_def

text \<open>The strings of the docstrings and of the specification, parsed.\<close>

lemma from_string_examples:
  "from_string ''p*0'' = Inr (vector_of 3 {1} {0, 1, 2} {0, 1})"
  "from_string ''--0'' = Inr (vector_of 3 {0, 1} {2} {})"
  "from_string ''//0'' = Inr (vector_of 3 {0, 1} {2} {0, 1})"
  "from_string ''n*0-+'' = Inr (vector_of 5 {0, 1, 3} {0, 1, 2} {1, 4})"
  "from_string ''**0++'' = Inr (vector_of 5 {0, 1} {0, 1, 2} {0, 1, 3, 4})"
  "from_string ''0*++0'' = Inr (vector_of 5 {1} {0, 1, 4} {1, 2, 3})"
  "from_string ''+'' = Inr (vector_of 1 {} {} {0})"
  "from_string ''-'' = Inr (vector_of 1 {0} {} {})"
  "from_string ''p'' = Inr (vector_of 1 {} {0} {0})"
  "from_string ''/'' = Inr (vector_of 1 {0} {} {0})"
  "from_string ''0+*n'' = Inr (vector_of 4 {2, 3} {0, 2, 3} {1, 2})"
  by code_simp+

subsection \<open>Composition\<close>

text \<open>
  Claim C1. For partial sign vectors \<open>x\<close> and \<open>y\<close> of one length, \<open>x.compose(y)\<close> is the
  vector of that length whose negative support is \<open>x.negative \<union> (y.negative \<inter> x.zero)\<close>,
  whose zero support is \<open>x.zero \<inter> y.zero\<close> and whose positive support is
  \<open>x.positive \<union> (y.positive \<inter> x.zero)\<close>. Composition is not commutative: \<open>p*0\<close>
  composed with \<open>--0\<close> equals \<open>//0\<close>, and \<open>--0\<close> composed with \<open>p*0\<close> equals \<open>--0\<close>.
\<close>

theorem compose_supports:
  "(\<forall>x y. psv_ok x \<and> psv_ok y \<and> length_psv x = length_psv y \<longrightarrow>
      compose x (PSV y) =
        vector_of (length_psv x)
          (bits (u_negative_support x) \<union> (bits (u_negative_support y) \<inter> bits (u_zero_support x)))
          (bits (u_zero_support x) \<inter> bits (u_zero_support y))
          (bits (u_positive_support x) \<union> (bits (u_positive_support y) \<inter> bits (u_zero_support x))))
   \<and> (case (from_string ''p*0'', from_string ''--0'', from_string ''//0'') of
         (Inr X, Inr Y, Inr Z) \<Rightarrow>
            eq_psv (compose X (PSV Y)) (EqVec (PSV Z))
            \<and> eq_psv (compose Y (PSV X)) (EqVec (PSV Y))
            \<and> \<not> eq_psv (compose X (PSV Y)) (EqVec (PSV (compose Y (PSV X))))
       | _ \<Rightarrow> False)"
proof (intro conjI allI impI)
  fix x y
  assume "psv_ok x \<and> psv_ok y \<and> length_psv x = length_psv y"
  then show "compose x (PSV y) =
        vector_of (length_psv x)
          (bits (u_negative_support x) \<union> (bits (u_negative_support y) \<inter> bits (u_zero_support x)))
          (bits (u_zero_support x) \<inter> bits (u_zero_support y))
          (bits (u_positive_support x) \<union> (bits (u_positive_support y) \<inter> bits (u_zero_support x)))"
    by (simp add: compose_def ok_defs bs_defs)
next
  show "case (from_string ''p*0'', from_string ''--0'', from_string ''//0'') of
         (Inr X, Inr Y, Inr Z) \<Rightarrow>
            eq_psv (compose X (PSV Y)) (EqVec (PSV Z))
            \<and> eq_psv (compose Y (PSV X)) (EqVec (PSV Y))
            \<and> \<not> eq_psv (compose X (PSV Y)) (EqVec (PSV (compose Y (PSV X))))
       | _ \<Rightarrow> False"
    by (simp add: from_string_examples compose_def bs_defs)
qed

theorem compose_supports_witness:
  "psv_ok (vector_of 3 {1} {0, 1, 2} {0, 1}) \<and> psv_ok (vector_of 3 {0, 1} {2} {})
   \<and> length_psv (vector_of 3 {1} {0, 1, 2} {0, 1}) = length_psv (vector_of 3 {0, 1} {2} {})
   \<and> compose (vector_of 3 {1} {0, 1, 2} {0, 1}) (PSV (vector_of 3 {0, 1} {2} {}))
       = vector_of 3 {0, 1} {2} {0, 1}"
proof -
  have h: "psv_ok (vector_of 3 {1} {0, 1, 2} {0, 1}) \<and> psv_ok (vector_of 3 {0, 1} {2} {})
   \<and> length_psv (vector_of 3 {1} {0, 1, 2} {0, 1}) = length_psv (vector_of 3 {0, 1} {2} {})"
    by (simp add: ok_defs)
  show ?thesis
    using h compose_supports[THEN conjunct1, rule_format,
        of "vector_of 3 {1} {0, 1, 2} {0, 1}" "vector_of 3 {0, 1} {2} {}"]
    by (simp add: length_psv_def insert_commute)
qed

text \<open>
  Claim C10. Composition keeps the length and invariant I1: when \<open>x\<close> and \<open>y\<close> have one
  length and every position of each lies in one of its three supports, \<open>x.compose(y)\<close>
  has that length and every position of it lies in one of its three supports.
\<close>

theorem compose_well_formed:
  "psv_ok x \<Longrightarrow> psv_ok y \<Longrightarrow> length_psv x = length_psv y \<Longrightarrow> well_formed x \<Longrightarrow> well_formed y \<Longrightarrow>
    length_psv (compose x (PSV y)) = length_psv x \<and> psv_ok (compose x (PSV y))
    \<and> well_formed (compose x (PSV y))"
  unfolding compose_def ok_defs bs_defs
  by (simp; blast)

theorem compose_well_formed_witness:
  "psv_ok (vector_of 3 {1} {0, 1, 2} {0, 1}) \<and> psv_ok (vector_of 3 {0, 1} {2} {})
   \<and> length_psv (vector_of 3 {1} {0, 1, 2} {0, 1}) = length_psv (vector_of 3 {0, 1} {2} {})
   \<and> well_formed (vector_of 3 {1} {0, 1, 2} {0, 1}) \<and> well_formed (vector_of 3 {0, 1} {2} {})
   \<and> length_psv (compose (vector_of 3 {1} {0, 1, 2} {0, 1}) (PSV (vector_of 3 {0, 1} {2} {}))) = 3
   \<and> well_formed (compose (vector_of 3 {1} {0, 1, 2} {0, 1}) (PSV (vector_of 3 {0, 1} {2} {})))"
proof -
  have h: "psv_ok (vector_of 3 {1} {0, 1, 2} {0, 1})" "psv_ok (vector_of 3 {0, 1} {2} {})"
   "length_psv (vector_of 3 {1} {0, 1, 2} {0, 1}) = length_psv (vector_of 3 {0, 1} {2} {})"
   "well_formed (vector_of 3 {1} {0, 1, 2} {0, 1})" "well_formed (vector_of 3 {0, 1} {2} {})"
    by (auto simp: ok_defs)
  show ?thesis using h compose_well_formed[OF h] by (simp add: length_psv_def)
qed

subsection \<open>Indexing\<close>

text \<open>
  Claim C9. For a vector of length \<open>n\<close> and an integer \<open>i\<close>, \<open>x[i]\<close> raises
  \<open>IndexError\<close> exactly when \<open>i \<ge> n\<close> or \<open>i < -n\<close>; otherwise it returns the signs
  admitted at position \<open>i\<close> (position \<open>n + i\<close> for a negative \<open>i\<close>), in the order
  \<open>-1, 0, 1\<close>.
\<close>

theorem getitem_index:
  "getitem x i =
     (if i \<ge> int (length_psv x) \<or> i < - int (length_psv x) then Inl IndexError
      else Inr (filter
                 (\<lambda>s. (s = -1 \<and> contains (nat (if i < 0 then int (length_psv x) + i else i)) (u_negative_support x))
                     \<or> (s = 0 \<and> contains (nat (if i < 0 then int (length_psv x) + i else i)) (u_zero_support x))
                     \<or> (s = 1 \<and> contains (nat (if i < 0 then int (length_psv x) + i else i)) (u_positive_support x)))
                 [-1, 0, 1]))"
proof -
  have m: "i mod int (length_psv x) = int (length_psv x) + i" if "i < 0" "\<not> i < - int (length_psv x)"
  proof -
    have "(i + int (length_psv x)) mod int (length_psv x) = i + int (length_psv x)"
      using that by (intro mod_pos_pos_trivial) auto
    then show ?thesis by (simp add: add.commute)
  qed
  show ?thesis
    by (auto simp: getitem_def Let_def m)
qed

theorem getitem_index_witness:
  "getitem (vector_of 4 {2, 3} {0, 2, 3} {1, 2}) (-1) = Inr [-1, 0]
   \<and> getitem (vector_of 4 {2, 3} {0, 2, 3} {1, 2}) (-4) = Inr [0]
   \<and> getitem (vector_of 4 {2, 3} {0, 2, 3} {1, 2}) (-5) = Inl IndexError
   \<and> getitem (vector_of 4 {2, 3} {0, 2, 3} {1, 2}) 4 = Inl IndexError"
  using getitem_index[of "vector_of 4 {2, 3} {0, 2, 3} {1, 2}" "-1"]
        getitem_index[of "vector_of 4 {2, 3} {0, 2, 3} {1, 2}" "-4"]
        getitem_index[of "vector_of 4 {2, 3} {0, 2, 3} {1, 2}" "-5"]
        getitem_index[of "vector_of 4 {2, 3} {0, 2, 3} {1, 2}" "4"]
  by (simp add: length_psv_def contains_def)

subsection \<open>The subset order\<close>

text \<open>
  Claim C8. \<open>issubset\<close> is a partial order on the partial sign vectors of one length: it is
  reflexive; \<open>x.issubset(y)\<close> and \<open>y.issubset(x)\<close> hold together exactly when \<open>x == y\<close>;
  and it is transitive. \<open>x.issubset(y)\<close> holds exactly when the positive, the negative
  and the zero support of \<open>x\<close> are each contained in the one of \<open>y\<close>.
\<close>

theorem issubset_partial_order:
  assumes "psv_ok x" "psv_ok y" "psv_ok z"
    "length_psv x = length_psv y" "length_psv y = length_psv z"
  shows "issubset x x
     \<and> ((issubset x y \<and> issubset y x) = eq_psv x (EqVec (PSV y)))
     \<and> (eq_psv x (EqVec (PSV y)) = (x = y))
     \<and> (issubset x y \<and> issubset y z \<longrightarrow> issubset x z)
     \<and> (issubset x y = (bits (u_positive_support x) \<subseteq> bits (u_positive_support y)
                        \<and> bits (u_negative_support x) \<subseteq> bits (u_negative_support y)
                        \<and> bits (u_zero_support x) \<subseteq> bits (u_zero_support y)))"
proof -
  have "eq_psv x (EqVec (PSV y)) = (x = y)"
    using assms
    by (auto simp: psv_ok_def bitset_ok_def bs_defs length_psv_def
        intro!: PartialSignVector.equality bitset.equality)
  then show ?thesis
    by (auto simp: issubset_def bs_defs)
qed

theorem issubset_partial_order_witness:
  "psv_ok (vector_of 2 {0} {} {1}) \<and> psv_ok (vector_of 2 {0} {1} {0, 1})
   \<and> psv_ok (vector_of 2 {0, 1} {0, 1} {0, 1})
   \<and> issubset (vector_of 2 {0} {} {1}) (vector_of 2 {0} {1} {0, 1})
   \<and> issubset (vector_of 2 {0} {1} {0, 1}) (vector_of 2 {0, 1} {0, 1} {0, 1})
   \<and> issubset (vector_of 2 {0} {} {1}) (vector_of 2 {0, 1} {0, 1} {0, 1})
   \<and> \<not> issubset (vector_of 2 {0} {1} {0, 1}) (vector_of 2 {0} {} {1})
   \<and> \<not> eq_psv (vector_of 2 {0} {} {1}) (EqVec (PSV (vector_of 2 {0} {1} {0, 1})))"
proof -
  have h: "psv_ok (vector_of 2 {0} {} {1})" "psv_ok (vector_of 2 {0} {1} {0, 1})"
    "psv_ok (vector_of 2 {0, 1} {0, 1} {0, 1})"
    "length_psv (vector_of 2 {0} {} {1}) = length_psv (vector_of 2 {0} {1} {0, 1})"
    "length_psv (vector_of 2 {0} {1} {0, 1}) = length_psv (vector_of 2 {0, 1} {0, 1} {0, 1})"
    by (auto simp: ok_defs)
  have s: "issubset (vector_of 2 {0} {} {1}) (vector_of 2 {0} {1} {0, 1})"
     "issubset (vector_of 2 {0} {1} {0, 1}) (vector_of 2 {0, 1} {0, 1} {0, 1})"
     "\<not> issubset (vector_of 2 {0} {1} {0, 1}) (vector_of 2 {0} {} {1})"
    by (auto simp: issubset_def bs_defs)
  show ?thesis using h s issubset_partial_order[OF h] by blast
qed

subsection \<open>Lists of members\<close>

lemma list_bs_filter:
  assumes "bits b \<subseteq> {..<n}"
  shows "list_bs b = filter (\<lambda>e. e \<in> bits b) [0..<n]"
proof -
  have "set (filter (\<lambda>e. e \<in> bits b) [0..<n]) = bits b"
    using assms by auto
  moreover have "sorted (filter (\<lambda>e. e \<in> bits b) [0..<n])"
    "distinct (filter (\<lambda>e. e \<in> bits b) [0..<n])"
    by (simp_all add: sorted_wrt_filter)
  ultimately show ?thesis
    unfolding list_bs_def
    by (metis sorted_list_of_set.idem_if_sorted_distinct)
qed

lemma list_bs_Nil: "bits b \<subseteq> {..<n} \<Longrightarrow> (list_bs b = []) = (bits b = {})"
  unfolding list_bs_def
  by (metis finite_lessThan finite_subset sorted_list_of_set.sorted_key_list_of_set_eq_Nil_iff)

subsection \<open>Orthogonality\<close>

text \<open>The determined supports, read through \<open>__getitem__\<close>.\<close>

lemma determined_getitem:
  assumes "psv_ok x" "e < length_psv x"
  shows "(e \<in> bits (u_determined_zero_support x)) = (getitem x (int e) = Inr [0])"
    and "(e \<in> bits (u_determined_positive_support x)) = (getitem x (int e) = Inr [1])"
    and "(e \<in> bits (u_determined_negative_support x)) = (getitem x (int e) = Inr [-1])"
  using assms by (auto simp: getitem_def ok_defs det_defs bs_defs)

lemma determined_below:
  assumes "psv_ok x"
  shows "bits (u_determined_zero_support x) \<subseteq> {..<length_psv x}"
    and "bits (u_determined_positive_support x) \<subseteq> {..<length_psv x}"
    and "bits (u_determined_negative_support x) \<subseteq> {..<length_psv x}"
  using assms by (auto simp: ok_defs det_defs bs_defs)

lemma filter_members:
  assumes "\<And>e. e < n \<Longrightarrow> (e \<in> S) = P e" "S \<subseteq> {..<n}"
  shows "sorted_list_of_set S = filter P [0..<n]"
proof -
  have "filter (\<lambda>e. e \<in> S) [0..<n] = filter P [0..<n]"
    using assms(1) by (intro filter_cong refl) simp
  moreover have "list_bs \<lparr>capacity = n, bits = S\<rparr> = filter (\<lambda>e. e \<in> S) [0..<n]"
    using list_bs_filter[of "\<lparr>capacity = n, bits = S\<rparr>" n] assms(2) by simp
  ultimately show ?thesis by (simp add: list_bs_def)
qed

lemma separating_getitem:
  assumes "psv_ok x" "psv_ok y" "length_psv x = length_psv y"
  shows "separating_elements x (PSV y) =
           filter (\<lambda>e. (getitem x (int e) = Inr [1] \<and> getitem y (int e) = Inr [-1])
                      \<or> (getitem x (int e) = Inr [-1] \<and> getitem y (int e) = Inr [1]))
             [0..<length_psv x]"
  unfolding separating_elements_def list_bs_def
proof (rule filter_members)
  show "bits (u_separating_elements x (PSV y)) \<subseteq> {..<length_psv x}"
    using determined_below[OF assms(1)] by (auto simp: bs_defs)
next
  fix e assume "e < length_psv x"
  then show "(e \<in> bits (u_separating_elements x (PSV y))) =
      ((getitem x (int e) = Inr [1] \<and> getitem y (int e) = Inr [-1])
        \<or> (getitem x (int e) = Inr [-1] \<and> getitem y (int e) = Inr [1]))"
    using determined_getitem[OF assms(1), of e] determined_getitem[OF assms(2), of e] assms(3)
    by (simp add: bs_defs)
qed

lemma connecting_getitem:
  assumes "psv_ok x" "psv_ok y" "length_psv x = length_psv y"
  shows "connecting_elements x (PSV y) =
           filter (\<lambda>e. (getitem x (int e) = Inr [1] \<and> getitem y (int e) = Inr [1])
                      \<or> (getitem x (int e) = Inr [-1] \<and> getitem y (int e) = Inr [-1]))
             [0..<length_psv x]"
  unfolding connecting_elements_def list_bs_def
proof (rule filter_members)
  show "bits (u_connecting_elements x (PSV y)) \<subseteq> {..<length_psv x}"
    using determined_below[OF assms(1)] by (auto simp: bs_defs)
next
  fix e assume "e < length_psv x"
  then show "(e \<in> bits (u_connecting_elements x (PSV y))) =
      ((getitem x (int e) = Inr [1] \<and> getitem y (int e) = Inr [1])
        \<or> (getitem x (int e) = Inr [-1] \<and> getitem y (int e) = Inr [-1]))"
    using determined_getitem[OF assms(1), of e] determined_getitem[OF assms(2), of e] assms(3)
    by (simp add: bs_defs)
qed

lemma separating_getitem_sv:
  assumes "psv_ok x" "sv_ok (length_psv x) sv"
  shows "separating_elements x (SV sv) =
           filter (\<lambda>e. (getitem x (int e) = Inr [1] \<and> e \<in> bits (sv_negative_support sv))
                      \<or> (getitem x (int e) = Inr [-1] \<and> e \<in> bits (sv_positive_support sv)))
             [0..<length_psv x]"
  unfolding separating_elements_def list_bs_def
proof (rule filter_members)
  show "bits (u_separating_elements x (SV sv)) \<subseteq> {..<length_psv x}"
    using determined_below[OF assms(1)] by (auto simp: bs_defs)
next
  fix e assume "e < length_psv x"
  then show "(e \<in> bits (u_separating_elements x (SV sv))) =
      ((getitem x (int e) = Inr [1] \<and> e \<in> bits (sv_negative_support sv))
        \<or> (getitem x (int e) = Inr [-1] \<and> e \<in> bits (sv_positive_support sv)))"
    using determined_getitem[OF assms(1), of e] by (simp add: bs_defs)
qed

lemma connecting_getitem_sv:
  assumes "psv_ok x" "sv_ok (length_psv x) sv"
  shows "connecting_elements x (SV sv) =
           filter (\<lambda>e. (getitem x (int e) = Inr [1] \<and> e \<in> bits (sv_positive_support sv))
                      \<or> (getitem x (int e) = Inr [-1] \<and> e \<in> bits (sv_negative_support sv)))
             [0..<length_psv x]"
  unfolding connecting_elements_def list_bs_def
proof (rule filter_members)
  show "bits (u_connecting_elements x (SV sv)) \<subseteq> {..<length_psv x}"
    using determined_below[OF assms(1)] by (auto simp: bs_defs)
next
  fix e assume "e < length_psv x"
  then show "(e \<in> bits (u_connecting_elements x (SV sv))) =
      ((getitem x (int e) = Inr [1] \<and> e \<in> bits (sv_positive_support sv))
        \<or> (getitem x (int e) = Inr [-1] \<and> e \<in> bits (sv_negative_support sv)))"
    using determined_getitem[OF assms(1), of e] by (simp add: bs_defs)
qed

lemma orthogonal_psv:
  assumes "psv_ok x" "psv_ok y" "length_psv x = length_psv y"
  shows "is_orthogonal_to x (PSV y) =
           (if \<forall>e\<in>set [0..<length_psv x]. getitem x (int e) = Inr [0] \<or> getitem y (int e) = Inr [0]
            then True
            else separating_elements x (PSV y) \<noteq> [] \<and> connecting_elements x (PSV y) \<noteq> [])"
proof -
  have s: "bits (u_separating_elements x (PSV y)) \<subseteq> {..<length_psv x}"
    and c: "bits (u_connecting_elements x (PSV y)) \<subseteq> {..<length_psv x}"
    using determined_below[OF assms(1)] by (auto simp: bs_defs)
  have cap: "capacity (union_bs (u_determined_zero_support x) (u_determined_zero_support y))
      = length_psv x"
    using assms by (simp add: ok_defs det_defs bs_defs)
  have cover: "(bits (complement_bs (union_bs (u_determined_zero_support x)
                                       (u_determined_zero_support y))) = {})
      = (\<forall>e\<in>set [0..<length_psv x]. getitem x (int e) = Inr [0] \<or> getitem y (int e) = Inr [0])"
    using determined_getitem(1)[OF assms(1)] determined_getitem(1)[OF assms(2)] assms(3) cap
    by (auto simp: isempty_def complement_bs_def union_bs_def)
  show ?thesis
    using list_bs_Nil[OF s] list_bs_Nil[OF c]
    by (auto simp: isempty_def cover separating_elements_def connecting_elements_def)
qed

lemma orthogonal_sv:
  assumes "psv_ok x" "sv_ok (length_psv x) sv"
  shows "is_orthogonal_to x (SV sv) =
           (if \<forall>e\<in>set [0..<length_psv x]. getitem x (int e) = Inr [0]
                  \<or> (e \<notin> bits (sv_positive_support sv) \<and> e \<notin> bits (sv_negative_support sv))
            then True
            else separating_elements x (SV sv) \<noteq> [] \<and> connecting_elements x (SV sv) \<noteq> [])"
proof -
  have s: "bits (u_separating_elements x (SV sv)) \<subseteq> {..<length_psv x}"
    and c: "bits (u_connecting_elements x (SV sv)) \<subseteq> {..<length_psv x}"
    using determined_below[OF assms(1)] by (auto simp: bs_defs)
  have cap: "capacity (union_bs (u_determined_zero_support x) (sv_zero_support sv)) = length_psv x"
    using assms by (simp add: ok_defs sv_ok_def sv_zero_support_def det_defs bs_defs)
  have cover: "(bits (complement_bs (union_bs (u_determined_zero_support x) (sv_zero_support sv)))
                  = {})
      = (\<forall>e\<in>set [0..<length_psv x]. getitem x (int e) = Inr [0]
            \<or> (e \<notin> bits (sv_positive_support sv) \<and> e \<notin> bits (sv_negative_support sv)))"
    using determined_getitem(1)[OF assms(1)] cap assms(2)
    by (auto simp: isempty_def complement_bs_def union_bs_def sv_zero_support_def sv_ok_def
        bitset_ok_def)
  show ?thesis
    using list_bs_Nil[OF s] list_bs_Nil[OF c]
    by (auto simp: isempty_def cover separating_elements_def connecting_elements_def)
qed

text \<open>
  Claim C7. For (partial) sign vectors \<open>x\<close> and \<open>y\<close> of one length, \<open>x.is_orthogonal_to(y)\<close>
  is true at once when the determined zero support of \<open>x\<close> and the (determined) zero
  support of \<open>y\<close> together cover all positions, that is when at every position \<open>x[e]\<close> is
  \<open>[0]\<close> or \<open>y\<close> is zero; otherwise it is true exactly when the separating elements are
  not empty and the connecting elements are not empty. The separating elements are the
  positions where \<open>x\<close> and \<open>y\<close> are determined with opposite nonzero signs, the connecting
  elements those where they are determined with the same nonzero sign. The vector
  \<open>n*0-+\<close> is orthogonal to \<open>**0++\<close> and to \<open>00+00\<close>, and not orthogonal to \<open>0*++0\<close> and to
  itself. For a total sign vector \<open>y\<close> its positive and negative supports are read
  directly.
\<close>

theorem is_orthogonal_to_cases:
  "(\<forall>x y. psv_ok x \<and> psv_ok y \<and> length_psv x = length_psv y \<longrightarrow>
      is_orthogonal_to x (PSV y) =
        (if \<forall>e\<in>set [0..<length_psv x]. getitem x (int e) = Inr [0] \<or> getitem y (int e) = Inr [0]
         then True
         else separating_elements x (PSV y) \<noteq> [] \<and> connecting_elements x (PSV y) \<noteq> [])
      \<and> separating_elements x (PSV y) =
          filter (\<lambda>e. (getitem x (int e) = Inr [1] \<and> getitem y (int e) = Inr [-1])
                     \<or> (getitem x (int e) = Inr [-1] \<and> getitem y (int e) = Inr [1]))
            [0..<length_psv x]
      \<and> connecting_elements x (PSV y) =
          filter (\<lambda>e. (getitem x (int e) = Inr [1] \<and> getitem y (int e) = Inr [1])
                     \<or> (getitem x (int e) = Inr [-1] \<and> getitem y (int e) = Inr [-1]))
            [0..<length_psv x])
   \<and> (\<forall>x sv. psv_ok x \<and> sv_ok (length_psv x) sv \<longrightarrow>
      is_orthogonal_to x (SV sv) =
        (if \<forall>e\<in>set [0..<length_psv x]. getitem x (int e) = Inr [0]
               \<or> (e \<notin> bits (sv_positive_support sv) \<and> e \<notin> bits (sv_negative_support sv))
         then True
         else separating_elements x (SV sv) \<noteq> [] \<and> connecting_elements x (SV sv) \<noteq> [])
      \<and> separating_elements x (SV sv) =
          filter (\<lambda>e. (getitem x (int e) = Inr [1] \<and> e \<in> bits (sv_negative_support sv))
                     \<or> (getitem x (int e) = Inr [-1] \<and> e \<in> bits (sv_positive_support sv)))
            [0..<length_psv x]
      \<and> connecting_elements x (SV sv) =
          filter (\<lambda>e. (getitem x (int e) = Inr [1] \<and> e \<in> bits (sv_positive_support sv))
                     \<or> (getitem x (int e) = Inr [-1] \<and> e \<in> bits (sv_negative_support sv)))
            [0..<length_psv x])
   \<and> (case (from_string ''n*0-+'', from_string ''**0++'', from_string ''0*++0'',
             from_string ''00+00'') of
         (Inr X, Inr Y, Inr Z, Inr W) \<Rightarrow>
            is_orthogonal_to X (PSV Y) \<and> \<not> is_orthogonal_to X (PSV Z)
            \<and> is_orthogonal_to X (PSV W) \<and> \<not> is_orthogonal_to X (PSV X)
            \<and> is_orthogonal_to X
                 (SV \<lparr>sv_positive_support = \<lparr>capacity = 5, bits = {2}\<rparr>,
                      sv_negative_support = \<lparr>capacity = 5, bits = {}\<rparr>\<rparr>)
            \<and> is_orthogonal_to X
                 (SV \<lparr>sv_positive_support = \<lparr>capacity = 5, bits = {3, 4}\<rparr>,
                      sv_negative_support = \<lparr>capacity = 5, bits = {}\<rparr>\<rparr>)
            \<and> \<not> is_orthogonal_to X
                 (SV \<lparr>sv_positive_support = \<lparr>capacity = 5, bits = {4}\<rparr>,
                      sv_negative_support = \<lparr>capacity = 5, bits = {}\<rparr>\<rparr>)
       | _ \<Rightarrow> False)"
proof (intro conjI allI impI)
  fix x y
  assume a: "psv_ok x \<and> psv_ok y \<and> length_psv x = length_psv y"
  then have a': "psv_ok x" "psv_ok y" "length_psv x = length_psv y" by simp_all
  show "is_orthogonal_to x (PSV y) =
        (if \<forall>e\<in>set [0..<length_psv x]. getitem x (int e) = Inr [0] \<or> getitem y (int e) = Inr [0]
         then True
         else separating_elements x (PSV y) \<noteq> [] \<and> connecting_elements x (PSV y) \<noteq> [])"
    by (rule orthogonal_psv[OF a'])
  show "separating_elements x (PSV y) =
          filter (\<lambda>e. (getitem x (int e) = Inr [1] \<and> getitem y (int e) = Inr [-1])
                     \<or> (getitem x (int e) = Inr [-1] \<and> getitem y (int e) = Inr [1]))
            [0..<length_psv x]"
    by (rule separating_getitem[OF a'])
  show "connecting_elements x (PSV y) =
          filter (\<lambda>e. (getitem x (int e) = Inr [1] \<and> getitem y (int e) = Inr [1])
                     \<or> (getitem x (int e) = Inr [-1] \<and> getitem y (int e) = Inr [-1]))
            [0..<length_psv x]"
    by (rule connecting_getitem[OF a'])
next
  fix x sv
  assume a: "psv_ok x \<and> sv_ok (length_psv x) sv"
  then have a': "psv_ok x" "sv_ok (length_psv x) sv" by simp_all
  show "is_orthogonal_to x (SV sv) =
        (if \<forall>e\<in>set [0..<length_psv x]. getitem x (int e) = Inr [0]
               \<or> (e \<notin> bits (sv_positive_support sv) \<and> e \<notin> bits (sv_negative_support sv))
         then True
         else separating_elements x (SV sv) \<noteq> [] \<and> connecting_elements x (SV sv) \<noteq> [])"
    by (rule orthogonal_sv[OF a'])
  show "separating_elements x (SV sv) =
          filter (\<lambda>e. (getitem x (int e) = Inr [1] \<and> e \<in> bits (sv_negative_support sv))
                     \<or> (getitem x (int e) = Inr [-1] \<and> e \<in> bits (sv_positive_support sv)))
            [0..<length_psv x]"
    by (rule separating_getitem_sv[OF a'])
  show "connecting_elements x (SV sv) =
          filter (\<lambda>e. (getitem x (int e) = Inr [1] \<and> e \<in> bits (sv_positive_support sv))
                     \<or> (getitem x (int e) = Inr [-1] \<and> e \<in> bits (sv_negative_support sv)))
            [0..<length_psv x]"
    by (rule connecting_getitem_sv[OF a'])
next
  show "case (from_string ''n*0-+'', from_string ''**0++'', from_string ''0*++0'',
             from_string ''00+00'') of
         (Inr X, Inr Y, Inr Z, Inr W) \<Rightarrow>
            is_orthogonal_to X (PSV Y) \<and> \<not> is_orthogonal_to X (PSV Z)
            \<and> is_orthogonal_to X (PSV W) \<and> \<not> is_orthogonal_to X (PSV X)
            \<and> is_orthogonal_to X
                 (SV \<lparr>sv_positive_support = \<lparr>capacity = 5, bits = {2}\<rparr>,
                      sv_negative_support = \<lparr>capacity = 5, bits = {}\<rparr>\<rparr>)
            \<and> is_orthogonal_to X
                 (SV \<lparr>sv_positive_support = \<lparr>capacity = 5, bits = {3, 4}\<rparr>,
                      sv_negative_support = \<lparr>capacity = 5, bits = {}\<rparr>\<rparr>)
            \<and> \<not> is_orthogonal_to X
                 (SV \<lparr>sv_positive_support = \<lparr>capacity = 5, bits = {4}\<rparr>,
                      sv_negative_support = \<lparr>capacity = 5, bits = {}\<rparr>\<rparr>)
       | _ \<Rightarrow> False"
    by code_simp
qed

theorem is_orthogonal_to_cases_witness:
  "psv_ok (vector_of 5 {0, 1, 3} {0, 1, 2} {1, 4})
   \<and> psv_ok (vector_of 5 {0, 1} {0, 1, 2} {0, 1, 3, 4})
   \<and> psv_ok (vector_of 5 {} {0, 1, 3, 4} {2})
   \<and> sv_ok 5 \<lparr>sv_positive_support = \<lparr>capacity = 5, bits = {3, 4}\<rparr>,
                sv_negative_support = \<lparr>capacity = 5, bits = {}\<rparr>\<rparr>
   \<and> separating_elements (vector_of 5 {0, 1, 3} {0, 1, 2} {1, 4})
       (PSV (vector_of 5 {0, 1} {0, 1, 2} {0, 1, 3, 4})) = [3]
   \<and> connecting_elements (vector_of 5 {0, 1, 3} {0, 1, 2} {1, 4})
       (PSV (vector_of 5 {0, 1} {0, 1, 2} {0, 1, 3, 4})) = [4]
   \<and> is_orthogonal_to (vector_of 5 {0, 1, 3} {0, 1, 2} {1, 4})
       (PSV (vector_of 5 {0, 1} {0, 1, 2} {0, 1, 3, 4}))
   \<and> separating_elements (vector_of 5 {0, 1, 3} {0, 1, 2} {1, 4})
       (PSV (vector_of 5 {} {0, 1, 3, 4} {2})) = []
   \<and> is_orthogonal_to (vector_of 5 {0, 1, 3} {0, 1, 2} {1, 4})
       (PSV (vector_of 5 {} {0, 1, 3, 4} {2}))
   \<and> separating_elements (vector_of 5 {0, 1, 3} {0, 1, 2} {1, 4})
       (SV \<lparr>sv_positive_support = \<lparr>capacity = 5, bits = {3, 4}\<rparr>,
            sv_negative_support = \<lparr>capacity = 5, bits = {}\<rparr>\<rparr>) = [3]
   \<and> connecting_elements (vector_of 5 {0, 1, 3} {0, 1, 2} {1, 4})
       (SV \<lparr>sv_positive_support = \<lparr>capacity = 5, bits = {3, 4}\<rparr>,
            sv_negative_support = \<lparr>capacity = 5, bits = {}\<rparr>\<rparr>) = [4]
   \<and> is_orthogonal_to (vector_of 5 {0, 1, 3} {0, 1, 2} {1, 4})
       (SV \<lparr>sv_positive_support = \<lparr>capacity = 5, bits = {3, 4}\<rparr>,
            sv_negative_support = \<lparr>capacity = 5, bits = {}\<rparr>\<rparr>)"
proof -
  let ?X = "vector_of 5 {0, 1, 3} {0, 1, 2} {1, 4}"
  let ?Y = "vector_of 5 {0, 1} {0, 1, 2} {0, 1, 3, 4}"
  let ?W = "vector_of 5 {} {0, 1, 3, 4} {2}"
  let ?V = "\<lparr>sv_positive_support = \<lparr>capacity = 5, bits = {3, 4}\<rparr>,
            sv_negative_support = \<lparr>capacity = 5, bits = {}\<rparr>\<rparr>"
  have h: "psv_ok ?X \<and> psv_ok ?Y \<and> length_psv ?X = length_psv ?Y"
    "psv_ok ?X \<and> psv_ok ?W \<and> length_psv ?X = length_psv ?W"
    "psv_ok ?X \<and> sv_ok (length_psv ?X) ?V"
    by (simp_all add: ok_defs sv_ok_def)
  have n: "length_psv ?X = 5" by (simp add: length_psv_def)
  have g: "map (\<lambda>e. getitem ?X (int e)) [0..<5] = [Inr [-1, 0], Inr [-1, 0, 1], Inr [0], Inr [-1], Inr [1]]"
    "map (\<lambda>e. getitem ?Y (int e)) [0..<5] = [Inr [-1, 0, 1], Inr [-1, 0, 1], Inr [0], Inr [1], Inr [1]]"
    "map (\<lambda>e. getitem ?W (int e)) [0..<5] = [Inr [0], Inr [0], Inr [1], Inr [0], Inr [0]]"
    by code_simp+
  have c1: "\<not> (\<forall>e\<in>set [0..<5]. getitem ?X (int e) = Inr [0] \<or> getitem ?Y (int e) = Inr [0])"
    and c2: "\<forall>e\<in>set [0..<5]. getitem ?X (int e) = Inr [0] \<or> getitem ?W (int e) = Inr [0]"
    and c3: "\<not> (\<forall>e\<in>set [0..<5]. getitem ?X (int e) = Inr [0]
                  \<or> (e \<notin> bits (sv_positive_support ?V) \<and> e \<notin> bits (sv_negative_support ?V)))"
    by code_simp+
  have f: "filter (\<lambda>e. (getitem ?X (int e) = Inr [1] \<and> getitem ?Y (int e) = Inr [-1])
                     \<or> (getitem ?X (int e) = Inr [-1] \<and> getitem ?Y (int e) = Inr [1])) [0..<5] = [3]"
    "filter (\<lambda>e. (getitem ?X (int e) = Inr [1] \<and> getitem ?Y (int e) = Inr [1])
                     \<or> (getitem ?X (int e) = Inr [-1] \<and> getitem ?Y (int e) = Inr [-1])) [0..<5] = [4]"
    "filter (\<lambda>e. (getitem ?X (int e) = Inr [1] \<and> getitem ?W (int e) = Inr [-1])
                     \<or> (getitem ?X (int e) = Inr [-1] \<and> getitem ?W (int e) = Inr [1])) [0..<5] = []"
    "filter (\<lambda>e. (getitem ?X (int e) = Inr [1] \<and> e \<in> bits (sv_negative_support ?V))
                     \<or> (getitem ?X (int e) = Inr [-1] \<and> e \<in> bits (sv_positive_support ?V))) [0..<5] = [3]"
    "filter (\<lambda>e. (getitem ?X (int e) = Inr [1] \<and> e \<in> bits (sv_positive_support ?V))
                     \<or> (getitem ?X (int e) = Inr [-1] \<and> e \<in> bits (sv_negative_support ?V))) [0..<5] = [4]"
    by code_simp+
  have r1: "is_orthogonal_to ?X (PSV ?Y) \<and> separating_elements ?X (PSV ?Y) = [3]
        \<and> connecting_elements ?X (PSV ?Y) = [4]"
    using is_orthogonal_to_cases[THEN conjunct1, rule_format, of ?X ?Y, OF h(1)] c1 f(1,2)
    unfolding n by (simp del: is_orthogonal_to.simps)
  have r2: "is_orthogonal_to ?X (PSV ?W) \<and> separating_elements ?X (PSV ?W) = []"
    using is_orthogonal_to_cases[THEN conjunct1, rule_format, of ?X ?W, OF h(2)] c2 f(3)
    unfolding n by (simp del: is_orthogonal_to.simps)
  have r3: "is_orthogonal_to ?X (SV ?V) \<and> separating_elements ?X (SV ?V) = [3]
        \<and> connecting_elements ?X (SV ?V) = [4]"
    using is_orthogonal_to_cases[THEN conjunct2, THEN conjunct1, rule_format, of ?X ?V, OF h(3)]
      c3 f(4,5)
    unfolding n by (simp del: is_orthogonal_to.simps)
  show ?thesis
    using h r1 r2 r3 unfolding n by (simp del: is_orthogonal_to.simps)
qed

subsection \<open>Connecting elements\<close>

text \<open>
  Claim C4, as stated, fails. The claim takes the connecting elements of \<open>x\<close> and \<open>y\<close> to be
  the positions where the two have opposite determined signs (\<open>x[e] == -y[e] != 0\<close>). At
  \<open>x = +\<close> and \<open>y = -\<close> position 0 is such a position, and \<open>connecting_elements\<close> returns
  the empty list.
\<close>

theorem connecting_elements_counterexample:
  "from_string ''+'' = Inr (vector_of 1 {} {} {0})
   \<and> from_string ''-'' = Inr (vector_of 1 {0} {} {})
   \<and> psv_ok (vector_of 1 {} {} {0}) \<and> psv_ok (vector_of 1 {0} {} {})
   \<and> getitem (vector_of 1 {} {} {0}) 0 = Inr [1]
   \<and> getitem (vector_of 1 {0} {} {}) 0 = Inr [-1]
   \<and> contains 0 (u_determined_positive_support (vector_of 1 {} {} {0}))
   \<and> contains 0 (u_negative_support (vector_of 1 {0} {} {}))
   \<and> connecting_elements_claimed (vector_of 1 {} {} {0}) (vector_of 1 {0} {} {}) = [0]
   \<and> connecting_elements (vector_of 1 {} {} {0}) (PSV (vector_of 1 {0} {} {})) = []"
  by code_simp

text \<open>
  Claim C4, amended. For partial sign vectors \<open>x\<close> and \<open>y\<close> of one length,
  \<open>x.connecting_elements(y)\<close> returns, in ascending order, exactly the positions where both
  are determined with the same nonzero sign: \<open>x[e] == y[e] == [1]\<close> or
  \<open>x[e] == y[e] == [-1]\<close>.
\<close>

theorem connecting_elements_equal_signs:
  assumes "psv_ok x" "psv_ok y" "length_psv x = length_psv y"
  shows "connecting_elements x (PSV y) =
           filter (\<lambda>e. (getitem x (int e) = Inr [1] \<and> getitem y (int e) = Inr [1])
                      \<or> (getitem x (int e) = Inr [-1] \<and> getitem y (int e) = Inr [-1]))
             [0..<length_psv x]"
proof -
  have c: "bits (u_connecting_elements x (PSV y)) \<subseteq> {..<length_psv x}"
    using assms by (auto simp: ok_defs det_defs bs_defs)
  have "(e \<in> bits (u_connecting_elements x (PSV y))) =
        ((getitem x (int e) = Inr [1] \<and> getitem y (int e) = Inr [1])
          \<or> (getitem x (int e) = Inr [-1] \<and> getitem y (int e) = Inr [-1]))"
    if "e \<in> set [0..<length_psv x]" for e
    using that assms
    by (auto simp: getitem_def ok_defs det_defs bs_defs)
  then show ?thesis
    unfolding connecting_elements_def list_bs_filter[OF c]
    by (intro filter_cong refl)
qed

theorem connecting_elements_equal_signs_witness:
  "psv_ok (vector_of 2 {1} {} {0}) \<and> psv_ok (vector_of 2 {} {} {0, 1})
   \<and> length_psv (vector_of 2 {1} {} {0}) = length_psv (vector_of 2 {} {} {0, 1})
   \<and> connecting_elements (vector_of 2 {1} {} {0}) (PSV (vector_of 2 {} {} {0, 1})) = [0]"
proof -
  have h: "psv_ok (vector_of 2 {1} {} {0})" "psv_ok (vector_of 2 {} {} {0, 1})"
   "length_psv (vector_of 2 {1} {} {0}) = length_psv (vector_of 2 {} {} {0, 1})"
    by (auto simp: ok_defs)
  have "filter (\<lambda>e. (getitem (vector_of 2 {1} {} {0}) (int e) = Inr [1]
                       \<and> getitem (vector_of 2 {} {} {0, 1}) (int e) = Inr [1])
                   \<or> (getitem (vector_of 2 {1} {} {0}) (int e) = Inr [-1]
                       \<and> getitem (vector_of 2 {} {} {0, 1}) (int e) = Inr [-1]))
             [0..<length_psv (vector_of 2 {1} {} {0})] = [0]"
    by code_simp
  then show ?thesis using h connecting_elements_equal_signs[OF h] by simp
qed

subsection \<open>Conversion to a sign vector\<close>

text \<open>
  Claim C2 says that \<open>to_sign_vector\<close> raises on a vector that is not a sign vector. The
  code returns the exception object instead: at \<open>x = p\<close>, which is not a sign vector, the
  call returns normally, and its value is the object \<open>Exception("not a sign vector")\<close>.
\<close>

theorem to_sign_vector_returns_exception:
  "from_string ''p'' = Inr (vector_of 1 {} {0} {0})
   \<and> psv_ok (vector_of 1 {} {0} {0}) \<and> well_formed (vector_of 1 {} {0} {0})
   \<and> \<not> is_sign_vector (vector_of 1 {} {0} {0})
   \<and> to_sign_vector (vector_of 1 {} {0} {0}) = Inr (ExceptionValue ''not a sign vector'')"
  by code_simp

subsection \<open>Flipping signs\<close>

text \<open>
  Claim C3 says that flipping twice at the same indices gives the vector back. At
  \<open>x = /\<close> and the index list \<open>[0]\<close> the code does not: position 0 lies in the negative and
  in the positive support, the symmetric difference removes it from both, and the second
  flip has nothing left to restore. The result admits no sign at position 0. \<open>__neg__\<close>,
  which swaps the two supports, leaves \<open>/\<close> as it is.
\<close>

theorem flip_signs_twice_differs:
  "from_string ''/'' = Inr (vector_of 1 {0} {} {0})
   \<and> psv_ok (vector_of 1 {0} {} {0}) \<and> well_formed (vector_of 1 {0} {} {0})
   \<and> flip_signs (vector_of 1 {0} {} {0}) [0] = Inr (vector_of 1 {} {} {})
   \<and> flip_signs (vector_of 1 {} {} {}) [0] = Inr (vector_of 1 {} {} {})
   \<and> \<not> eq_psv (vector_of 1 {} {} {}) (EqVec (PSV (vector_of 1 {0} {} {0})))
   \<and> \<not> well_formed (vector_of 1 {} {} {})
   \<and> neg (vector_of 1 {0} {} {0}) = vector_of 1 {0} {} {0}"
  by code_simp

subsection \<open>Strings\<close>

lemma positions_set:
  "set (map fst (filter (\<lambda>(pos, t). P t) (enumerate 0 s))) = {i. i < length s \<and> P (s ! i)}"
  by (auto simp: in_set_enumerate_eq image_iff) 

lemma from_string_eq:
  "s \<noteq> [] \<Longrightarrow>
   from_string s =
     Inr (vector_of (length s)
            {i. i < length s \<and> s ! i \<in> set ''-n/*''}
            {i. i < length s \<and> s ! i \<in> set ''0np*''}
            {i. i < length s \<and> s ! i \<in> set ''+p/*''})"
  unfolding from_string_def from_support_def FrozenBitset_def positions_set
  by auto

lemma from_string_Nil: "from_string [] = Inl ValueError"
  by (simp add: from_string_def from_support_def FrozenBitset_def)

lemma join_Some:
  "(\<And>e. e \<in> set es \<Longrightarrow> f e = Inr (Some (g e))) \<Longrightarrow> join (map f es) = Inr (concat (map g es))"
  by (induction es) auto

lemma concat_singletons: "concat (map (\<lambda>e. [h e]) es) = map h es"
  by (induction es) auto

lemma to_string_from_string:
  assumes "set s \<subseteq> set ''-0+np/*''"
  shows "to_string (vector_of (length s)
            {i. i < length s \<and> s ! i \<in> set ''-n/*''}
            {i. i < length s \<and> s ! i \<in> set ''0np*''}
            {i. i < length s \<and> s ! i \<in> set ''+p/*''}) = Inr s"
    (is "to_string ?x = _")
proof -
  have "to_string_index ?x (int e) = Inr (Some [s ! e])" if "e \<in> set [0..<length s]" for e
  proof -
    have "e < length s" using that by simp
    moreover from this assms have "s ! e \<in> set ''-0+np/*''"
      by (meson nth_mem subsetD)
    ultimately show ?thesis
      by (auto simp: to_string_index_def getitem_def length_psv_def contains_def)
  qed
  then have "join (map (\<lambda>e. to_string_index ?x (int e)) [0..<length s])
      = Inr (concat (map (\<lambda>e. [s ! e]) [0..<length s]))"
    by (rule join_Some)
  then show ?thesis
    by (simp add: to_string_def length_psv_def concat_singletons map_nth)
qed

lemma to_string_symbols:
  assumes "psv_ok x" "well_formed x"
  shows "to_string x = Inr (map (symbol_at x) [0..<length_psv x])"
proof -
  have "to_string_index x (int e) = Inr (Some [symbol_at x e])" if "e \<in> set [0..<length_psv x]" for e
  proof -
    have "e < length_psv x" using that by simp
    moreover from this assms have
      "e \<in> bits (u_negative_support x) \<or> e \<in> bits (u_zero_support x) \<or> e \<in> bits (u_positive_support x)"
      by (auto simp: well_formed_def)
    ultimately show ?thesis
      using assms(1)
      by (auto simp: to_string_index_def getitem_def symbol_at_def contains_def psv_ok_def bitset_ok_def)
  qed
  then have "join (map (\<lambda>e. to_string_index x (int e)) [0..<length_psv x])
      = Inr (concat (map (\<lambda>e. [symbol_at x e]) [0..<length_psv x]))"
    by (rule join_Some)
  then show ?thesis
    by (simp add: to_string_def concat_singletons)
qed

lemma from_string_symbols:
  assumes "psv_ok x" "0 < length_psv x" "well_formed x"
  shows "from_string (map (symbol_at x) [0..<length_psv x]) = Inr x"
proof -
  have w: "e \<in> bits (u_negative_support x) \<or> e \<in> bits (u_zero_support x) \<or> e \<in> bits (u_positive_support x)"
    if "e < length_psv x" for e
    using that assms by (auto simp: well_formed_def)
  have n: "{i. i < length_psv x \<and> symbol_at x i \<in> set ''-n/*''} = bits (u_negative_support x)"
    using assms(1) w by (auto simp: symbol_at_def psv_ok_def bitset_ok_def split: if_splits)
  have z: "{i. i < length_psv x \<and> symbol_at x i \<in> set ''0np*''} = bits (u_zero_support x)"
    using assms(1) w by (auto simp: symbol_at_def psv_ok_def bitset_ok_def split: if_splits)
  have p: "{i. i < length_psv x \<and> symbol_at x i \<in> set ''+p/*''} = bits (u_positive_support x)"
    using assms(1) w by (auto simp: symbol_at_def psv_ok_def bitset_ok_def split: if_splits)
  have m: "{i. i < length_psv x \<and> map (symbol_at x) [0..<length_psv x] ! i \<in> A}
      = {i. i < length_psv x \<and> symbol_at x i \<in> A}" for A
    by auto
  have ne: "map (symbol_at x) [0..<length_psv x] \<noteq> []"
    using assms(2) by simp
  have "from_string (map (symbol_at x) [0..<length_psv x])
      = Inr (vector_of (length_psv x) (bits (u_negative_support x)) (bits (u_zero_support x))
               (bits (u_positive_support x)))"
    unfolding from_string_eq[OF ne] length_map length_upt diff_zero m n z p ..
  also have "vector_of (length_psv x) (bits (u_negative_support x)) (bits (u_zero_support x))
               (bits (u_positive_support x)) = x"
    using assms(1) by (simp add: psv_ok_def bitset_ok_def length_psv_def)
  finally show ?thesis .
qed

text \<open>
  Claim C5, as stated, fails at the empty string: \<open>from_string("")\<close> asks the library for
  bitsets of capacity 0, and the library raises \<open>ValueError\<close>.
\<close>

theorem string_round_trip_counterexample:
  "set [] \<subseteq> set ''-0+np/*'' \<and> from_string [] = Inl ValueError"
  by (simp add: from_string_Nil)

text \<open>
  Claim C5, amended. For every string \<open>s\<close> over the seven letters \<open>-\<close>, \<open>0\<close>, \<open>+\<close>, \<open>n\<close>, \<open>p\<close>,
  \<open>/\<close>, \<open>*\<close> that is not empty, \<open>from_string(s).to_string()\<close> is \<open>s\<close>; and for every
  well-formed partial sign vector \<open>x\<close> (whose length is at least 1, as the capacity of
  every bitset is), \<open>from_string(x.to_string()) == x\<close>.
\<close>

theorem string_round_trip_nonempty:
  "(\<forall>s. s \<noteq> [] \<and> set s \<subseteq> set ''-0+np/*'' \<longrightarrow>
      (case from_string s of Inr x \<Rightarrow> to_string x = Inr s | Inl err \<Rightarrow> False))
   \<and> (\<forall>x. psv_ok x \<and> 0 < length_psv x \<and> well_formed x \<longrightarrow>
      (case to_string x of
         Inr s \<Rightarrow> (case from_string s of
                     Inr y \<Rightarrow> y = x \<and> eq_psv y (EqVec (PSV x))
                   | Inl err \<Rightarrow> False)
       | Inl err \<Rightarrow> False))"
proof (intro conjI allI impI)
  fix s :: string
  assume a: "s \<noteq> [] \<and> set s \<subseteq> set ''-0+np/*''"
  then have ne: "s \<noteq> []" by simp
  from a have "to_string (vector_of (length s)
            {i. i < length s \<and> s ! i \<in> set ''-n/*''}
            {i. i < length s \<and> s ! i \<in> set ''0np*''}
            {i. i < length s \<and> s ! i \<in> set ''+p/*''}) = Inr s"
    by (simp only: to_string_from_string)
  then show "case from_string s of Inr x \<Rightarrow> to_string x = Inr s | Inl err \<Rightarrow> False"
    unfolding from_string_eq[OF ne] by (simp only: sum.case)
next
  fix x
  assume "psv_ok x \<and> 0 < length_psv x \<and> well_formed x"
  then have "to_string x = Inr (map (symbol_at x) [0..<length_psv x])"
    and "from_string (map (symbol_at x) [0..<length_psv x]) = Inr x"
    by (simp_all only: to_string_symbols from_string_symbols)
  then show "case to_string x of
         Inr s \<Rightarrow> (case from_string s of
                     Inr y \<Rightarrow> y = x \<and> eq_psv y (EqVec (PSV x))
                   | Inl err \<Rightarrow> False)
       | Inl err \<Rightarrow> False"
    by (simp add: eq_bs_def)
qed

theorem string_round_trip_nonempty_witness:
  "''+/**pn0--'' \<noteq> [] \<and> set ''+/**pn0--'' \<subseteq> set ''-0+np/*''
   \<and> from_string ''+/**pn0--'' = Inr (vector_of 9 {1, 2, 3, 5, 7, 8} {2, 3, 4, 5, 6} {0, 1, 2, 3, 4})
   \<and> to_string (vector_of 9 {1, 2, 3, 5, 7, 8} {2, 3, 4, 5, 6} {0, 1, 2, 3, 4}) = Inr ''+/**pn0--''
   \<and> psv_ok (vector_of 2 {1} {0} {0})
   \<and> 0 < length_psv (vector_of 2 {1} {0} {0})
   \<and> well_formed (vector_of 2 {1} {0} {0})
   \<and> to_string (vector_of 2 {1} {0} {0}) = Inr ''p-''
   \<and> from_string ''p-'' = Inr (vector_of 2 {1} {0} {0})"
proof -
  have a: "''+/**pn0--'' \<noteq> [] \<and> set ''+/**pn0--'' \<subseteq> set ''-0+np/*''" by simp
  have f: "from_string ''+/**pn0--'' = Inr (vector_of 9 {1, 2, 3, 5, 7, 8} {2, 3, 4, 5, 6} {0, 1, 2, 3, 4})"
    by code_simp
  have w: "psv_ok (vector_of 2 {1} {0} {0}) \<and> 0 < length_psv (vector_of 2 {1} {0} {0})
       \<and> well_formed (vector_of 2 {1} {0} {0})"
    by code_simp
  have t: "to_string (vector_of 2 {1} {0} {0}) = Inr ''p-''"
    "from_string ''p-'' = Inr (vector_of 2 {1} {0} {0})"
    by code_simp+
  show ?thesis
    using a f w t
      string_round_trip_nonempty[THEN conjunct1, rule_format, of "''+/**pn0--''"]
      string_round_trip_nonempty[THEN conjunct2, rule_format, of "vector_of 2 {1} {0} {0}"]
    by simp
qed

subsection \<open>Cardinality and unpacking\<close>

lemma psv_ext:
  assumes "psv_ok y" "psv_ok z" "length_psv y = length_psv z" "\<And>i. admits y i = admits z i"
  shows "y = z"
proof -
  have "bits (u_negative_support y) = bits (u_negative_support z)"
    "bits (u_zero_support y) = bits (u_zero_support z)"
    "bits (u_positive_support y) = bits (u_positive_support z)"
    using assms(4) by (auto simp: admits_def)
  then show ?thesis
    using assms(1-3)
    by (auto simp: psv_ok_def bitset_ok_def length_psv_def
        intro!: PartialSignVector.equality bitset.equality)
qed

lemma getitem_admits:
  "psv_ok y \<Longrightarrow> e < length_psv y \<Longrightarrow> getitem y (int e) = Inr (signs_of (admits y e))"
  by (simp add: getitem_def psv_ok_def bitset_ok_def contains_def signs_of_def admits_def)

lemma set_sign_admits:
  assumes "psv_ok y" "e < length_psv y"
  shows "\<not> isl (set_sign y [e] (SignList [s]))"
    and "psv_ok (projr (set_sign y [e] (SignList [s])))"
    and "length_psv (projr (set_sign y [e] (SignList [s]))) = length_psv y"
    and "admits (projr (set_sign y [e] (SignList [s]))) i =
           (if i = e then (s = -1, s = 0, s = 1) else admits y i)"
  using assms
  by (auto simp: psv_ok_def bitset_ok_def length_psv_def admits_def FrozenBitset_of_def
      union_bs_def difference_bs_def)

lemma signs_of_range: "s \<in> set (signs_of t) \<Longrightarrow> s = -1 \<or> s = 0 \<or> s = 1"
  by (auto simp: signs_of_def split: prod.splits if_splits)

lemma signs_of_distinct: "distinct (signs_of t)"
  by (auto simp: signs_of_def split: prod.splits)

lemma unpack_step_image:
  assumes "unpack_inv x k res" "k < length_psv x"
  shows "unpack_step k res =
           Inr ((\<lambda>(y, s). projr (set_sign y [k] (SignList [s]))) ` (res \<times> set (signs_of (admits x k))))"
proof -
  have g: "getitem y (int k) = Inr (signs_of (admits x k))" if "y \<in> res" for y
    using that assms getitem_admits[of y k] by (auto simp: unpack_inv_def)
  then have "\<not> (\<exists>psv\<in>res. isl (getitem psv (int k)))"
    by auto
  moreover have "\<not> (\<exists>psv\<in>res. \<exists>s\<in>set (projr (getitem psv (int k))).
                     isl (set_sign psv [k] (SignList [s])))"
    using assms set_sign_admits(1) by (auto simp: unpack_inv_def)
  moreover have "(\<Union>psv\<in>res. (\<lambda>s. projr (set_sign psv [k] (SignList [s]))) ` set (projr (getitem psv (int k))))
      = (\<lambda>(y, s). projr (set_sign y [k] (SignList [s]))) ` (res \<times> set (signs_of (admits x k)))"
    using g by force
  ultimately show ?thesis
    unfolding unpack_step_def by simp
qed

lemma unpack_step_inj:
  assumes "unpack_inv x k res" "k < length_psv x"
  shows "inj_on (\<lambda>(y, s). projr (set_sign y [k] (SignList [s]))) (res \<times> set (signs_of (admits x k)))"
proof (rule inj_onI)
  fix a b
  assume a: "a \<in> res \<times> set (signs_of (admits x k))" and b: "b \<in> res \<times> set (signs_of (admits x k))"
    and eq: "(case a of (y, s) \<Rightarrow> projr (set_sign y [k] (SignList [s])))
           = (case b of (y, s) \<Rightarrow> projr (set_sign y [k] (SignList [s])))"
  obtain y s where ys: "a = (y, s)" by (cases a)
  obtain z r where zr: "b = (z, r)" by (cases b)
  have y: "psv_ok y" "length_psv y = length_psv x" "admits y k = admits x k"
    and z: "psv_ok z" "length_psv z = length_psv x" "admits z k = admits x k"
    using a b ys zr assms(1) by (auto simp: unpack_inv_def)
  have sm: "s \<in> set (signs_of (admits x k))" and rm: "r \<in> set (signs_of (admits x k))"
    using a b ys zr by simp_all
  have s: "s = -1 \<or> s = 0 \<or> s = 1" using sm by (rule signs_of_range)
  have r: "r = -1 \<or> r = 0 \<or> r = 1" using rm by (rule signs_of_range)
  have e: "projr (set_sign y [k] (SignList [s])) = projr (set_sign z [k] (SignList [r]))"
    using eq ys zr by simp
  have ad: "admits (projr (set_sign y [k] (SignList [s]))) i = admits (projr (set_sign z [k] (SignList [r]))) i" for i
    using e by simp
  have "(s = -1, s = 0, s = 1) = (r = -1, r = 0, r = 1)"
    using ad[of k] set_sign_admits(4)[of y k s k] set_sign_admits(4)[of z k r k] y z assms(2)
    by simp
  then have sr: "s = r" using s r by auto
  have "admits y i = admits z i" for i
  proof (cases "i = k")
    case True
    then show ?thesis using y(3) z(3) by simp
  next
    case False
    then show ?thesis
      using ad[of i] set_sign_admits(4)[of y k s i] set_sign_admits(4)[of z k r i] y z assms(2)
      by simp
  qed
  then have "y = z" using psv_ext y z by simp
  then show "a = b" using sr ys zr by simp
qed

lemma unpack_step_inv:
  assumes "unpack_inv x k res" "k < length_psv x"
  shows "\<exists>res'. unpack_step k res = Inr res' \<and> unpack_inv x (Suc k) res'
           \<and> card res' = card res * length (signs_of (admits x k))"
proof -
  let ?f = "\<lambda>(y, s). projr (set_sign y [k] (SignList [s]))"
  let ?S = "set (signs_of (admits x k))"
  let ?res' = "?f ` (res \<times> ?S)"
  have fin: "finite res" using assms(1) by (simp add: unpack_inv_def)
  have "card ?res' = card (res \<times> ?S)"
    using unpack_step_inj[OF assms] by (rule card_image)
  also have "\<dots> = card res * length (signs_of (admits x k))"
    by (simp add: card_cartesian_product distinct_card signs_of_distinct)
  finally have c: "card ?res' = card res * length (signs_of (admits x k))" .
  have inv: "unpack_inv x (Suc k) ?res'"
    unfolding unpack_inv_def
  proof (intro conjI ballI)
    show "finite ?res'" using fin by simp
  next
    fix w assume "w \<in> ?res'"
    then obtain y s where w: "w = projr (set_sign y [k] (SignList [s]))" and y: "y \<in> res" and s: "s \<in> ?S"
      by auto
    have yk: "psv_ok y" "k < length_psv y" "length_psv y = length_psv x"
      "\<And>i. i \<ge> k \<Longrightarrow> admits y i = admits x i"
      "\<And>i. i < k \<Longrightarrow> length (signs_of (admits y i)) = 1"
      using y assms by (auto simp: unpack_inv_def)
    have s3: "s = -1 \<or> s = 0 \<or> s = 1" using s by (rule signs_of_range)
    show "psv_ok w" using w set_sign_admits(2)[OF yk(1,2)] by simp
    show "length_psv w = length_psv x" using w set_sign_admits(3)[OF yk(1,2)] yk(3) by simp
    show "\<forall>i\<ge>Suc k. admits w i = admits x i"
      using w set_sign_admits(4)[OF yk(1,2)] yk(4) by simp
    show "\<forall>i<Suc k. length (signs_of (admits w i)) = 1"
    proof (intro allI impI)
      fix i assume "i < Suc k"
      then consider "i = k" | "i < k" by linarith
      then show "length (signs_of (admits w i)) = 1"
      proof cases
        case 1
        then show ?thesis
          using w set_sign_admits(4)[OF yk(1,2), of s i] s3 by (auto simp: signs_of_def)
      next
        case 2
        then show ?thesis
          using w set_sign_admits(4)[OF yk(1,2), of s i] yk(5) by simp
      qed
    qed
  qed
  show ?thesis
    using unpack_step_image[OF assms] inv c by blast
qed

lemma unpack_loop_inv:
  assumes "unpack_inv x k res" "k \<le> length_psv x"
  shows "\<exists>res'. unpack_loop [k..<length_psv x] res = Inr res' \<and> unpack_inv x (length_psv x) res'
           \<and> card res' = card res * (\<Prod>i = k..<length_psv x. length (signs_of (admits x i)))"
  using assms
proof (induction "length_psv x - k" arbitrary: k res)
  case 0
  then have "k = length_psv x" by simp
  then show ?case using "0.prems" by simp
next
  case (Suc d)
  then have lt: "k < length_psv x" by simp
  obtain res1 where r1: "unpack_step k res = Inr res1" "unpack_inv x (Suc k) res1"
    "card res1 = card res * length (signs_of (admits x k))"
    using unpack_step_inv[OF Suc.prems(1) lt] by blast
  have "d = length_psv x - Suc k" using Suc.hyps(2) by simp
  then obtain res' where r': "unpack_loop [Suc k..<length_psv x] res1 = Inr res'"
    "unpack_inv x (length_psv x) res'"
    "card res' = card res1 * (\<Prod>i = Suc k..<length_psv x. length (signs_of (admits x i)))"
    using Suc.hyps(1)[of "Suc k" res1] r1(2) lt by auto
  have "unpack_loop [k..<length_psv x] res = Inr res'"
    using lt r1(1) r'(1) by (simp add: upt_conv_Cons)
  moreover have "card res' = card res * (\<Prod>i = k..<length_psv x. length (signs_of (admits x i)))"
    using r'(3) r1(3) lt by (simp add: prod.atLeast_Suc_lessThan mult.assoc)
  ultimately show ?case using r'(2) by blast
qed

lemma signs_of_length:
  "length (signs_of (a, b, c)) = (if a then 1 else 0) + (if b then 1 else 0) + (if c then 1 else 0)"
  by (simp add: signs_of_def)

lemma determined_bits:
  "bits (u_determined_support y) = {i. length (signs_of (admits y i)) = 1}"
  by (auto simp: det_defs bs_defs admits_def signs_of_length split: if_splits)

lemma undetermined_bits:
  "bits (u_undetermined_support y) = {i. length (signs_of (admits y i)) = 3}"
  by (auto simp: det_defs bs_defs admits_def signs_of_length split: if_splits)

lemma admits_outside:
  "psv_ok y \<Longrightarrow> length_psv y \<le> i \<Longrightarrow> admits y i = (False, False, False)"
  by (auto simp: psv_ok_def bitset_ok_def admits_def)

lemma length_list_bs: "finite (bits b) \<Longrightarrow> length (list_bs b) = card (bits b)"
  by (simp add: list_bs_def)

lemma all_determined:
  assumes "unpack_inv x (length_psv x) res" "y \<in> res"
  shows "is_sign_vector y"
proof -
  have y: "psv_ok y" "length_psv y = length_psv x"
    "\<And>i. i < length_psv x \<Longrightarrow> length (signs_of (admits y i)) = 1"
    using assms by (auto simp: unpack_inv_def)
  have "bits (u_determined_support y) = {..<length_psv y}"
  proof (rule set_eqI)
    fix i
    show "(i \<in> bits (u_determined_support y)) = (i \<in> {..<length_psv y})"
    proof (cases "i < length_psv y")
      case True
      then show ?thesis using y by (simp add: determined_bits)
    next
      case False
      then have "admits y i = (False, False, False)"
        using admits_outside[OF y(1)] by simp
      then show ?thesis using False by (simp add: determined_bits signs_of_length)
    qed
  qed
  then show ?thesis
    by (simp add: is_sign_vector_def determined_support_def length_list_bs)
qed

lemma cast_inj:
  assumes "unpack_inv x (length_psv x) res"
  shows "inj_on (\<lambda>sv. cast_element_of sv (projr (to_sign_vector sv))) res"
proof (rule inj_onI)
  fix y z
  assume yz: "y \<in> res" "z \<in> res"
    and eq: "cast_element_of y (projr (to_sign_vector y)) = cast_element_of z (projr (to_sign_vector z))"
  have y: "psv_ok y" "length_psv y = length_psv x"
    "\<And>i. i < length_psv x \<Longrightarrow> length (signs_of (admits y i)) = 1"
    and z: "psv_ok z" "length_psv z = length_psv x"
    "\<And>i. i < length_psv x \<Longrightarrow> length (signs_of (admits z i)) = 1"
    using assms yz by (auto simp: unpack_inv_def)
  have "is_sign_vector y" "is_sign_vector z"
    using all_determined[OF assms] yz by simp_all
  then have pn: "u_positive_support y = u_positive_support z"
    "u_negative_support y = u_negative_support z"
    using eq by (simp_all add: to_sign_vector_def)
  have "admits y i = admits z i" for i
  proof (cases "i < length_psv x")
    case True
    then show ?thesis
      using y(3)[of i] z(3)[of i] pn
      by (auto simp: admits_def signs_of_length split: if_splits)
  next
    case False
    then show ?thesis
      using admits_outside[OF y(1), of i] admits_outside[OF z(1), of i] y(2) z(2) by simp
  qed
  then show "y = z" using psv_ext y z by simp
qed

lemma signs_product:
  assumes "psv_ok x" "well_formed x"
  shows "card (bits (u_determined_support x)) + card (bits (u_undetermined_support x)) \<le> length_psv x"
    and "(\<Prod>i = 0..<length_psv x. length (signs_of (admits x i)))
          = 2 ^ (length_psv x - card (bits (u_determined_support x))
                    - card (bits (u_undetermined_support x)))
            * 3 ^ card (bits (u_undetermined_support x))"
proof -
  let ?n = "length_psv x"
  let ?D = "bits (u_determined_support x)"
  let ?U = "bits (u_undetermined_support x)"
  let ?A = "{0..<?n}"
  have sub: "?D \<subseteq> ?A" "?U \<subseteq> ?A"
    using assms(1) by (auto simp: det_defs bs_defs psv_ok_def bitset_ok_def)
  have dis: "?D \<inter> ?U = {}"
    by (auto simp: determined_bits undetermined_bits)
  have fin: "finite ?D" "finite ?U"
    using sub by (auto intro: finite_subset)
  have "card (?D \<union> ?U) = card ?D + card ?U"
    using fin dis by (rule card_Un_disjoint)
  moreover have "card (?D \<union> ?U) \<le> card ?A"
    using sub by (intro card_mono) auto
  ultimately show le: "card ?D + card ?U \<le> ?n" by simp
  have f: "length (signs_of (admits x i)) = (if i \<in> ?D then 1 else if i \<in> ?U then 3 else 2)"
    if "i \<in> ?A" for i
  proof -
    have "i \<in> bits (u_negative_support x) \<or> i \<in> bits (u_zero_support x)
        \<or> i \<in> bits (u_positive_support x)"
      using that assms(2) by (auto simp: well_formed_def)
    then show ?thesis
      by (auto simp: determined_bits undetermined_bits admits_def signs_of_length)
  qed
  have "(\<Prod>i\<in>?A. length (signs_of (admits x i)))
      = (\<Prod>i\<in>?A. if i \<in> ?D then 1 else if i \<in> ?U then 3 else (2::nat))"
    using f by (intro prod.cong refl) simp
  also have "\<dots> = (\<Prod>i\<in>?A \<inter> - {i. i \<in> ?D}. if i \<in> ?U then 3 else (2::nat))"
    by (simp add: prod.If_cases)
  also have "\<dots> = 3 ^ card ((?A \<inter> - {i. i \<in> ?D}) \<inter> {i. i \<in> ?U})
                  * 2 ^ card ((?A \<inter> - {i. i \<in> ?D}) \<inter> - {i. i \<in> ?U})"
    by (simp add: prod.If_cases)
  also have "(?A \<inter> - {i. i \<in> ?D}) \<inter> {i. i \<in> ?U} = ?U"
    using sub dis by auto
  also have "(?A \<inter> - {i. i \<in> ?D}) \<inter> - {i. i \<in> ?U} = ?A - (?D \<union> ?U)"
    by auto
  also have "card (?A - (?D \<union> ?U)) = ?n - card ?D - card ?U"
    using sub fin dis by (simp add: card_Diff_subset card_Un_disjoint)
  finally show "(\<Prod>i = 0..<?n. length (signs_of (admits x i)))
          = 2 ^ (?n - card ?D - card ?U) * 3 ^ card ?U"
    by (simp add: mult.commute)
qed

text \<open>
  Claim C6. For every well-formed partial sign vector \<open>x\<close>, \<open>x.cardinality()\<close> is
  \<open>2^(length - |determined_support| - |undetermined_support|) * 3^|undetermined_support|\<close>,
  and this is the number of elements of the set \<open>x.unpack()\<close> returns for the default
  indices. The exponent of 2 is not negative, and every element of the set is a sign
  vector.
\<close>

theorem cardinality_unpack:
  assumes "psv_ok x" "well_formed x"
  shows "length (determined_support x) + length (undetermined_support x) \<le> length_psv x
     \<and> cardinality x =
         Some (2 ^ (length_psv x - length (determined_support x) - length (undetermined_support x))
               * 3 ^ length (undetermined_support x))
     \<and> (case unpack x NoIndices of
           Inr (Cast S) \<Rightarrow>
             finite S \<and> cardinality x = Some (int (card S))
             \<and> S \<subseteq> range SignVectorElement
         | _ \<Rightarrow> False)"
proof -
  let ?n = "length_psv x"
  let ?D = "bits (u_determined_support x)"
  let ?U = "bits (u_undetermined_support x)"
  have fin: "finite ?D" "finite ?U"
    using assms(1)
    by (auto simp: det_defs bs_defs psv_ok_def bitset_ok_def intro: finite_subset[of _ "{..<?n}"])
  have len: "length (determined_support x) = card ?D" "length (undetermined_support x) = card ?U"
    using fin by (simp_all add: determined_support_def undetermined_support_def length_list_bs)
  have le: "card ?D + card ?U \<le> ?n"
    and pr: "(\<Prod>i = 0..<?n. length (signs_of (admits x i)))
               = 2 ^ (?n - card ?D - card ?U) * 3 ^ card ?U"
    using signs_product[OF assms] by simp_all
  have k: "int ?n - int (card ?D) - int (card ?U) = int (?n - card ?D - card ?U)"
    using le by simp
  have c: "cardinality x = Some (2 ^ (?n - card ?D - card ?U) * 3 ^ card ?U)"
    unfolding cardinality_def len Let_def k by simp
  have "unpack_inv x 0 {x}"
    using assms(1) by (simp add: unpack_inv_def)
  then obtain res where r: "unpack_loop [0..<?n] {x} = Inr res" "unpack_inv x ?n res"
    "card res = card {x} * (\<Prod>i = 0..<?n. length (signs_of (admits x i)))"
    using unpack_loop_inv[of x 0 "{x}"] by auto
  have sv: "to_sign_vector y =
      Inr (SignVectorValue \<lparr>sv_positive_support = u_positive_support y,
                            sv_negative_support = u_negative_support y\<rparr>)"
    if "y \<in> res" for y
    using all_determined[OF r(2) that] by (simp add: to_sign_vector_def)
  let ?S = "(\<lambda>sv. cast_element_of sv (projr (to_sign_vector sv))) ` res"
  have u: "unpack x NoIndices = Inr (Cast ?S)"
    using r(1) sv by simp
  have "finite res" using r(2) by (simp add: unpack_inv_def)
  then have fS: "finite ?S" by simp
  have "card ?S = card res"
    using cast_inj[OF r(2)] by (rule card_image)
  then have cS: "int (card ?S) = 2 ^ (?n - card ?D - card ?U) * 3 ^ card ?U"
    using r(3) pr by simp
  have rS: "?S \<subseteq> range SignVectorElement"
    using sv by auto
  show ?thesis
    using le c fS cS rS unfolding u len by simp
qed

theorem cardinality_unpack_witness:
  "psv_ok (vector_of 3 {1} {0, 1, 2} {0, 1}) \<and> well_formed (vector_of 3 {1} {0, 1, 2} {0, 1})
   \<and> determined_support (vector_of 3 {1} {0, 1, 2} {0, 1}) = [2]
   \<and> undetermined_support (vector_of 3 {1} {0, 1, 2} {0, 1}) = [1]
   \<and> cardinality (vector_of 3 {1} {0, 1, 2} {0, 1}) = Some 6
   \<and> (case unpack (vector_of 3 {1} {0, 1, 2} {0, 1}) NoIndices of
         Inr (Cast S) \<Rightarrow> card S = 6
       | _ \<Rightarrow> False)"
proof -
  have h: "psv_ok (vector_of 3 {1} {0, 1, 2} {0, 1})" "well_formed (vector_of 3 {1} {0, 1, 2} {0, 1})"
    by (auto simp: ok_defs)
  have d: "determined_support (vector_of 3 {1} {0, 1, 2} {0, 1}) = [2]"
    "undetermined_support (vector_of 3 {1} {0, 1, 2} {0, 1}) = [1]"
    by code_simp+
  have n: "length_psv (vector_of 3 {1} {0, 1, 2} {0, 1}) = 3"
    by (simp add: length_psv_def)
  show ?thesis
    using h d cardinality_unpack[OF h]
    unfolding d n
    by (auto simp del: unpack.simps split: sum.splits unpack_result.splits)
qed

end
